theory Spec2Isabelle
  imports Main "HOL-Library.Word" "HOL-Library.Multiset"
begin

section \<open>JavaScript values used by the extension\<close>

text \<open>
  A JavaScript string is a sequence of UTF-16 code units. Literals of the source that are
  plain ASCII are written \<open>ascii ''...''\<close>.
\<close>

type_synonym jschar = "16 word"
type_synonym jsstring = "jschar list"

definition ascii :: "string \<Rightarrow> jsstring" where
  "ascii s = map of_char s"

text \<open>
  A \<open>Date\<close> object holds a time value: the milliseconds since the epoch, or NaN for an
  Invalid Date (\<open>None\<close>). \<open>new Date(s)\<close> on a string runs the engine's \<open>Date.parse\<close>, whose
  accepted formats are implementation-defined beyond the ISO format; the functions below
  take it as the parameter \<open>parse\<close>, so that every theorem holds for every engine.
\<close>

type_synonym Date = "int option"
type_synonym dateParse = "jsstring \<Rightarrow> Date"

subsection \<open>Numbers and strings\<close>

text \<open>
  \<open>isDigit\<close> is the regular-expression class \<open>\d\<close> (the ASCII digits), \<open>decimalValue\<close> is
  \<open>parseInt\<close> on a string of digits, \<open>natToString\<close> is \<open>String(n)\<close> for a non-negative
  integer and \<open>padStart\<close> is \<open>String.prototype.padStart\<close> with a one-character filler.
\<close>

definition isDigit :: "jschar \<Rightarrow> bool" where
  "isDigit c = (48 \<le> c \<and> c \<le> 57)"

definition digitValue :: "jschar \<Rightarrow> int" where
  "digitValue c = uint c - 48"

definition decimalValue :: "jsstring \<Rightarrow> int" where
  "decimalValue ds = foldl (\<lambda>n c. 10 * n + digitValue c) 0 ds"

fun natToString :: "nat \<Rightarrow> jsstring" where
  "natToString n =
     (if n < 10 then [of_nat (48 + n)]
      else natToString (n div 10) @ [of_nat (48 + n mod 10)])"

declare natToString.simps [simp del]

definition padStart :: "nat \<Rightarrow> jschar \<Rightarrow> jsstring \<Rightarrow> jsstring" where
  "padStart n c s = replicate (n - length s) c @ s"

subsection \<open>The calendar of ECMAScript\<close>

text \<open>
  \<open>DayFromYear\<close> and \<open>InLeapYear\<close> are the definitions of the ECMAScript specification
  (section "Year Number"); \<open>monthStart leap m\<close> is the day within the year on which
  month \<open>m\<close> (0 to 11) starts, \<open>monthStart leap 12\<close> the length of the year.
\<close>

definition DayFromYear :: "int \<Rightarrow> int" where
  "DayFromYear y =
     365 * (y - 1970) + (y - 1969) div 4 - (y - 1901) div 100 + (y - 1601) div 400"

definition InLeapYear :: "int \<Rightarrow> bool" where
  "InLeapYear y =
     (if y mod 4 \<noteq> 0 then False else if y mod 100 \<noteq> 0 then True
      else if y mod 400 \<noteq> 0 then False else True)"

definition monthStart :: "bool \<Rightarrow> int \<Rightarrow> int" where
  "monthStart leap m =
     (let l = (if leap then 1 else 0) in
      if m = 0 then 0 else if m = 1 then 31 else if m = 2 then 59 + l
      else if m = 3 then 90 + l else if m = 4 then 120 + l else if m = 5 then 151 + l
      else if m = 6 then 181 + l else if m = 7 then 212 + l else if m = 8 then 243 + l
      else if m = 9 then 273 + l else if m = 10 then 304 + l
      else if m = 11 then 334 + l else 365 + l)"

text \<open>
  \<open>isoDateParse\<close> is \<open>Date.parse\<close> on the format that \<open>toISOString\<close> writes,
  \<open>YYYY-MM-DDTHH:mm:ss.sssZ\<close> with every field in range, which every engine reads the
  same way. It is the instance of \<open>parse\<close> at which concrete inputs are evaluated; a text
  that is not of this form is an Invalid Date here.
\<close>

definition isoDateParse :: dateParse where
  "isoDateParse s =
     (if length s = 24 \<and> list_all isDigit (take 4 s) \<and> s ! 4 = 45
         \<and> list_all isDigit (take 2 (drop 5 s)) \<and> s ! 7 = 45
         \<and> list_all isDigit (take 2 (drop 8 s)) \<and> s ! 10 = 84
         \<and> list_all isDigit (take 2 (drop 11 s)) \<and> s ! 13 = 58
         \<and> list_all isDigit (take 2 (drop 14 s)) \<and> s ! 16 = 58
         \<and> list_all isDigit (take 2 (drop 17 s)) \<and> s ! 19 = 46
         \<and> list_all isDigit (take 3 (drop 20 s)) \<and> s ! 23 = 90
      then
        (let y = decimalValue (take 4 s);
             mo = decimalValue (take 2 (drop 5 s));
             d = decimalValue (take 2 (drop 8 s));
             h = decimalValue (take 2 (drop 11 s));
             mi = decimalValue (take 2 (drop 14 s));
             sec = decimalValue (take 2 (drop 17 s));
             ms = decimalValue (take 3 (drop 20 s))
         in if 1 \<le> mo \<and> mo \<le> 12 \<and> 1 \<le> d
               \<and> d \<le> monthStart (InLeapYear y) mo - monthStart (InLeapYear y) (mo - 1)
               \<and> h \<le> 23 \<and> mi \<le> 59 \<and> sec \<le> 59
            then Some ((DayFromYear y + monthStart (InLeapYear y) (mo - 1) + d - 1) * 86400000
                       + h * 3600000 + mi * 60000 + sec * 1000 + ms)
            else None)
      else None)"

section \<open>Retention store (\<open>twitterStorage\<close>)\<close>

record TwitterPost =
  id_post :: jsstring
  author :: jsstring
  content :: jsstring
  timestamp :: jsstring
  publishTime :: jsstring

record TwitterStorageState =
  posts :: "TwitterPost list"
  lastFetchTime :: jsstring
  isFirstTime :: bool

text \<open>The fallback value handed to \<open>createStorage\<close>.\<close>

definition defaultState :: TwitterStorageState where
  "defaultState = \<lparr>posts = [], lastFetchTime = [], isFirstTime = True\<rparr>"

text \<open>
  The comparator of \<open>addPosts\<close>:
  \<open>(a, b) => new Date(b.publishTime).getTime() - new Date(a.publishTime).getTime()\<close>.
  When either date is invalid the difference is NaN, which \<open>Array.prototype.sort\<close> reads
  as \<open>+0\<close>. Only the sign of the result is used, and the sign of a difference of two time
  values is the same in double and in integer arithmetic.
\<close>

definition comparePublishTime :: "dateParse \<Rightarrow> TwitterPost \<Rightarrow> TwitterPost \<Rightarrow> int" where
  "comparePublishTime parse a b =
     (case (parse (publishTime b), parse (publishTime a)) of
        (Some tb, Some ta) \<Rightarrow> tb - ta
      | _ \<Rightarrow> 0)"

text \<open>
  \<open>Array.prototype.sort\<close> with a comparator is a stable sort (ECMAScript 2019): the result
  is ordered by the comparator and elements that compare equal keep their order. For a
  consistent comparator that result is unique, and the stable insertion sort below
  computes it. For an inconsistent comparator (here: when some date is invalid) the
  order is implementation-defined; the theorems about order assume valid dates.
\<close>

fun insertWith :: "('a \<Rightarrow> 'a \<Rightarrow> int) \<Rightarrow> 'a \<Rightarrow> 'a list \<Rightarrow> 'a list" where
  "insertWith cmp x [] = [x]"
| "insertWith cmp x (y # ys) =
     (if cmp x y \<le> 0 then x # y # ys else y # insertWith cmp x ys)"

fun sortWith :: "('a \<Rightarrow> 'a \<Rightarrow> int) \<Rightarrow> 'a list \<Rightarrow> 'a list" where
  "sortWith cmp [] = []"
| "sortWith cmp (x # xs) = insertWith cmp x (sortWith cmp xs)"

text \<open>
  \<open>addPosts\<close> reads the state, keeps the posts of the batch whose id is not stored, and
  writes the merged, sorted and truncated list together with
  \<open>lastFetchTime: new Date().toISOString()\<close> and \<open>isFirstTime: false\<close>. The clock reading
  is the argument \<open>now\<close>. The result is the new state and the returned count. The read
  and the write are taken as one step: \<open>state\<close> in the update function is the
  \<open>currentState\<close> read before.
\<close>

definition addPosts ::
  "dateParse \<Rightarrow> jsstring \<Rightarrow> TwitterStorageState \<Rightarrow> TwitterPost list
     \<Rightarrow> TwitterStorageState \<times> nat" where
  "addPosts parse now currentState newPosts =
     (let existingIds = set (map id_post (posts currentState));
          uniqueNewPosts = filter (\<lambda>post. id_post post \<notin> existingIds) newPosts;
          allPosts = take 20 (sortWith (comparePublishTime parse)
                       (uniqueNewPosts @ posts currentState))
      in (currentState\<lparr>posts := allPosts, lastFetchTime := now, isFirstTime := False\<rparr>,
          length uniqueNewPosts))"

definition getLatestTimestamp :: "dateParse \<Rightarrow> TwitterStorageState \<Rightarrow> Date option" where
  "getLatestTimestamp parse state =
     (case posts state of [] \<Rightarrow> None | p # _ \<Rightarrow> Some (parse (publishTime p)))"

definition reset :: "TwitterStorageState \<Rightarrow> TwitterStorageState" where
  "reset state = \<lparr>posts = [], lastFetchTime = [], isFirstTime = True\<rparr>"

text \<open>
  A run of the store: the calls of \<open>addPosts\<close> in order, each with its clock reading and
  its batch; the result lists the state after every call.
\<close>

fun addPostsRun ::
  "dateParse \<Rightarrow> TwitterStorageState \<Rightarrow> (jsstring \<times> TwitterPost list) list
     \<Rightarrow> TwitterStorageState list" where
  "addPostsRun parse state [] = []"
| "addPostsRun parse state ((now, batch) # calls) =
     (let state' = fst (addPosts parse now state batch)
      in state' # addPostsRun parse state' calls)"

subsection \<open>Properties of stored lists\<close>

text \<open>
  \<open>instantGe a b\<close>: both instants are valid and \<open>a\<close> is not before \<open>b\<close>; \<open>instantLt a b\<close>:
  both are valid and \<open>a\<close> is before \<open>b\<close>. A list of posts is in descending order when every
  post has a valid instant and no post is older than its successor.
\<close>

fun instantGe :: "Date \<Rightarrow> Date \<Rightarrow> bool" where
  "instantGe (Some a) (Some b) = (b \<le> a)"
| "instantGe _ _ = False"

fun instantLt :: "Date \<Rightarrow> Date \<Rightarrow> bool" where
  "instantLt (Some a) (Some b) = (a < b)"
| "instantLt _ _ = False"

definition instants :: "dateParse \<Rightarrow> TwitterPost list \<Rightarrow> Date list" where
  "instants parse ps = map (\<lambda>p. parse (publishTime p)) ps"

fun descendingDates :: "Date list \<Rightarrow> bool" where
  "descendingDates [] = True"
| "descendingDates [a] = (a \<noteq> None)"
| "descendingDates (a # b # ds) = (instantGe a b \<and> descendingDates (b # ds))"

fun increasingDates :: "Date list \<Rightarrow> bool" where
  "increasingDates [] = True"
| "increasingDates [a] = (a \<noteq> None)"
| "increasingDates (a # b # ds) = (instantLt a b \<and> increasingDates (b # ds))"

definition validInstants :: "dateParse \<Rightarrow> TwitterPost list \<Rightarrow> bool" where
  "validInstants parse ps = list_all (\<lambda>p. parse (publishTime p) \<noteq> None) ps"

definition sortedDescending :: "dateParse \<Rightarrow> TwitterPost list \<Rightarrow> bool" where
  "sortedDescending parse ps = descendingDates (instants parse ps)"

definition strictlyIncreasing :: "dateParse \<Rightarrow> TwitterPost list \<Rightarrow> bool" where
  "strictlyIncreasing parse ps = increasingDates (instants parse ps)"

definition uniqueIds :: "TwitterPost list \<Rightarrow> bool" where
  "uniqueIds ps = distinct (map id_post ps)"

definition storeInvariant :: "dateParse \<Rightarrow> TwitterStorageState \<Rightarrow> bool" where
  "storeInvariant parse state =
     (sortedDescending parse (posts state) \<and> length (posts state) \<le> 20)"

text \<open>Properties of a run: of the batches handed in, and of the states it goes through.\<close>

definition validBatches :: "dateParse \<Rightarrow> (jsstring \<times> TwitterPost list) list \<Rightarrow> bool" where
  "validBatches parse calls = list_all (\<lambda>c. validInstants parse (snd c)) calls"

definition distinctBatches :: "(jsstring \<times> TwitterPost list) list \<Rightarrow> bool" where
  "distinctBatches calls = list_all (\<lambda>c. uniqueIds (snd c)) calls"

definition allSortedBounded :: "dateParse \<Rightarrow> TwitterStorageState list \<Rightarrow> bool" where
  "allSortedBounded parse sts = list_all (storeInvariant parse) sts"

definition allUniqueIds :: "TwitterStorageState list \<Rightarrow> bool" where
  "allUniqueIds sts = list_all (\<lambda>st. uniqueIds (posts st)) sts"

text \<open>
  \<open>allKnown\<close>: every post of the batch carries an id that is stored; \<open>novelIds\<close>: the ids
  of the batch that are not stored.
\<close>

definition allKnown :: "TwitterStorageState \<Rightarrow> TwitterPost list \<Rightarrow> bool" where
  "allKnown state batch = list_all (\<lambda>p. id_post p \<in> set (map id_post (posts state))) batch"

definition novelIds :: "TwitterStorageState \<Rightarrow> TwitterPost list \<Rightarrow> jsstring set" where
  "novelIds state batch = set (map id_post batch) - set (map id_post (posts state))"

subsection \<open>Concrete posts, batches and states\<close>

definition examplePost :: "nat \<Rightarrow> TwitterPost" where
  "examplePost n =
     \<lparr>id_post = ascii ''post'' @ natToString n,
      author = ascii ''alice'',
      content = ascii ''hello'',
      timestamp = ascii ''2024/01/01 00:00:'' @ padStart 2 48 (natToString n),
      publishTime = ascii ''2024-01-01T00:00:'' @ padStart 2 48 (natToString n)
                      @ ascii ''.000Z''\<rparr>"

definition exampleBatch :: "TwitterPost list" where
  "exampleBatch = map examplePost [0..<25]"

definition exampleNow :: jsstring where
  "exampleNow = ascii ''2024-06-01T12:00:00.000Z''"

definition exampleCalls :: "(jsstring \<times> TwitterPost list) list" where
  "exampleCalls = [(exampleNow, [examplePost 1, examplePost 3]),
                   (exampleNow, [examplePost 3, examplePost 2])]"

definition duplicateBatch :: "TwitterPost list" where
  "duplicateBatch = [examplePost 1, (examplePost 1)\<lparr>content := ascii ''again''\<rparr>]"

definition duplicateCalls :: "(jsstring \<times> TwitterPost list) list" where
  "duplicateCalls = [(exampleNow, duplicateBatch)]"

definition knownState :: TwitterStorageState where
  "knownState = \<lparr>posts = [examplePost 2, examplePost 1],
                 lastFetchTime = ascii ''2024-01-01T00:01:00.000Z'', isFirstTime = False\<rparr>"

definition unsortedState :: TwitterStorageState where
  "unsortedState = \<lparr>posts = [examplePost 1, examplePost 2],
                 lastFetchTime = ascii ''2024-01-01T00:01:00.000Z'', isFirstTime = False\<rparr>"


section \<open>Content script: extraction of posts (\<open>extractTweets\<close>)\<close>

subsection \<open>Time values\<close>

text \<open>
  \<open>new Date(number)\<close> keeps a time value of at most \<open>8.64e15\<close> milliseconds in absolute
  value and turns any other number into an Invalid Date (\<open>TimeClip\<close>).
  \<open>numberToString\<close> is \<open>String(date.getTime())\<close>: the decimal digits of the time value,
  or \<open>NaN\<close>.
\<close>

definition TimeClip :: "int \<Rightarrow> Date" where
  "TimeClip t = (if - 8640000000000000 \<le> t \<and> t \<le> 8640000000000000 then Some t else None)"

definition intToString :: "int \<Rightarrow> jsstring" where
  "intToString i = (if i < 0 then 45 # natToString (nat (- i)) else natToString (nat i))"

definition numberToString :: "Date \<Rightarrow> jsstring" where
  "numberToString d = (case d of None \<Rightarrow> ascii ''NaN'' | Some t \<Rightarrow> intToString t)"

subsection \<open>Year, month and day of a time value\<close>

text \<open>The length of a year, from the definition of \<open>DayFromYear\<close>.\<close>

lemma div_step:
  fixes a k :: int
  assumes "0 < k"
  shows "(a + 1) div k = a div k + (if (a + 1) mod k = 0 then 1 else 0)"
proof -
  have r: "0 \<le> a mod k" "a mod k < k" using assms by simp_all
  have e: "a + 1 = k * (a div k) + (a mod k + 1)" by simp
  show ?thesis
  proof (cases "a mod k + 1 = k")
    case True
    then have "a + 1 = k * (a div k + 1)" using e by (simp add: algebra_simps)
    then have "(a + 1) div k = a div k + 1" and "(a + 1) mod k = 0"
      using assms by simp_all
    then show ?thesis by simp
  next
    case False
    then have lt: "a mod k + 1 < k" using r by simp
    have "(a + 1) div k = a div k"
      using e r lt
      by (metis add.commute add_nonneg_nonneg int_div_pos_eq mult.commute zero_le_one)
    moreover have "(a + 1) mod k = a mod k + 1"
      using e r lt by (metis add_nonneg_nonneg int_mod_pos_eq mult.commute zero_le_one)
    ultimately show ?thesis using r by simp
  qed
qed

lemma mod_shift: "((y::int) - k * c) mod k = y mod k"
  by (metis mod_mult_self1 diff_conv_add_uminus mult_minus_right mult.commute)

lemma mod_100_4: "(y::int) mod 100 = 0 \<Longrightarrow> y mod 4 = 0"
proof -
  assume "y mod 100 = 0"
  then have "100 dvd y" by (simp add: dvd_eq_mod_eq_0)
  moreover have "(4::int) dvd 100" by simp
  ultimately have "4 dvd y" by (rule dvd_trans [rotated])
  then show ?thesis by (simp add: dvd_eq_mod_eq_0)
qed

lemma mod_400_100: "(y::int) mod 400 = 0 \<Longrightarrow> y mod 100 = 0"
proof -
  assume "y mod 400 = 0"
  then have "400 dvd y" by (simp add: dvd_eq_mod_eq_0)
  moreover have "(100::int) dvd 400" by simp
  ultimately have "100 dvd y" by (rule dvd_trans [rotated])
  then show ?thesis by (simp add: dvd_eq_mod_eq_0)
qed

lemma DayFromYear_next:
  "DayFromYear (y + 1) = DayFromYear y + (if InLeapYear y then 366 else 365)"
proof -
  have m4: "(y - 1968) mod 4 = y mod 4" using mod_shift [of y 4 492] by simp
  have m100: "(y - 1900) mod 100 = y mod 100" using mod_shift [of y 100 19] by simp
  have m400: "(y - 1600) mod 400 = y mod 400" using mod_shift [of y 400 4] by simp
  have a: "(y + 1 - 1969) div 4 = (y - 1969) div 4 + (if y mod 4 = 0 then 1 else 0)"
    using div_step [of 4 "y - 1969"] m4 by (simp add: algebra_simps)
  have b: "(y + 1 - 1901) div 100 = (y - 1901) div 100 + (if y mod 100 = 0 then 1 else 0)"
    using div_step [of 100 "y - 1901"] m100 by (simp add: algebra_simps)
  have c: "(y + 1 - 1601) div 400 = (y - 1601) div 400 + (if y mod 400 = 0 then 1 else 0)"
    using div_step [of 400 "y - 1601"] m400 by (simp add: algebra_simps)
  show ?thesis
    unfolding DayFromYear_def InLeapYear_def a b c
    using mod_100_4 [of y] mod_400_100 [of y] by auto
qed

text \<open>
  \<open>YearFromTime t\<close> is the largest year \<open>y\<close> with \<open>TimeFromYear y \<le> t\<close>. It is found from
  an estimate by stepping up while the next year has begun, then down while the year
  has not.
\<close>

definition Day :: "int \<Rightarrow> int" where
  "Day t = t div 86400000"

function yearUp :: "int \<Rightarrow> int \<Rightarrow> int" where
  "yearUp d y = (if DayFromYear (y + 1) \<le> d then yearUp d (y + 1) else y)"
  by pat_completeness auto
termination
proof (relation "measure (\<lambda>(d, y). nat (d - DayFromYear (y + 1) + 1))")
  show "wf (measure (\<lambda>(d, y). nat (d - DayFromYear (y + 1) + 1)))" by simp
next
  fix d y :: int
  assume "DayFromYear (y + 1) \<le> d"
  then show "((d, y + 1), (d, y)) \<in> measure (\<lambda>(d, y). nat (d - DayFromYear (y + 1) + 1))"
    using DayFromYear_next [of "y + 1"] by (simp split: if_splits)
qed

function yearDown :: "int \<Rightarrow> int \<Rightarrow> int" where
  "yearDown d y = (if d < DayFromYear y then yearDown d (y - 1) else y)"
  by pat_completeness auto
termination
proof (relation "measure (\<lambda>(d, y). nat (DayFromYear y - d))")
  show "wf (measure (\<lambda>(d, y). nat (DayFromYear y - d)))" by simp
next
  fix d y :: int
  assume "d < DayFromYear y"
  then show "((d, y - 1), (d, y)) \<in> measure (\<lambda>(d, y). nat (DayFromYear y - d))"
    using DayFromYear_next [of "y - 1"] by (simp split: if_splits)
qed

declare yearUp.simps [simp del]
declare yearDown.simps [simp del]

definition YearFromTime :: "int \<Rightarrow> int" where
  "YearFromTime t = yearDown (Day t) (yearUp (Day t) (1970 + Day t div 366))"

definition DayWithinYear :: "int \<Rightarrow> int" where
  "DayWithinYear t = Day t - DayFromYear (YearFromTime t)"

definition MonthFromTime :: "int \<Rightarrow> int" where
  "MonthFromTime t =
     (let d = DayWithinYear t; l = (if InLeapYear (YearFromTime t) then 1 else 0) in
      if d < 31 then 0 else if d < 59 + l then 1 else if d < 90 + l then 2
      else if d < 120 + l then 3 else if d < 151 + l then 4 else if d < 181 + l then 5
      else if d < 212 + l then 6 else if d < 243 + l then 7 else if d < 273 + l then 8
      else if d < 304 + l then 9 else if d < 334 + l then 10 else 11)"

definition DateFromTime :: "int \<Rightarrow> int" where
  "DateFromTime t =
     DayWithinYear t - monthStart (InLeapYear (YearFromTime t)) (MonthFromTime t) + 1"

definition HourFromTime :: "int \<Rightarrow> int" where
  "HourFromTime t = (t div 3600000) mod 24"

definition MinFromTime :: "int \<Rightarrow> int" where
  "MinFromTime t = (t div 60000) mod 60"

definition SecFromTime :: "int \<Rightarrow> int" where
  "SecFromTime t = (t div 1000) mod 60"

definition msFromTime :: "int \<Rightarrow> int" where
  "msFromTime t = t mod 1000"

text \<open>
  Local time is the time value plus the offset of the host's time zone at that instant
  (\<open>LocalTZA\<close>), a function of the host that the model takes as the parameter \<open>tza\<close>.
\<close>

type_synonym localTZA = "int \<Rightarrow> int"

definition LocalTime :: "localTZA \<Rightarrow> int \<Rightarrow> int" where
  "LocalTime tza t = t + tza t"

definition utc :: localTZA where
  "utc t = 0"

definition utcPlus8 :: localTZA where
  "utcPlus8 t = 28800000"

subsection \<open>\<open>formatTimestamp\<close> and \<open>toISOString\<close>\<close>

text \<open>
  \<open>pad2 n\<close> is \<open>String(n).padStart(2, '0')\<close>. On an Invalid Date every getter returns NaN,
  \<open>String(NaN)\<close> is \<open>NaN\<close> and \<open>padStart\<close> leaves it as it is.
\<close>

definition pad2 :: "int \<Rightarrow> jsstring" where
  "pad2 n = padStart 2 48 (intToString n)"

definition formatTimestamp :: "localTZA \<Rightarrow> Date \<Rightarrow> jsstring" where
  "formatTimestamp tza date =
     (case date of
        None \<Rightarrow> ascii ''NaN/NaN/NaN NaN:NaN:NaN''
      | Some t \<Rightarrow>
          (let year = YearFromTime (LocalTime tza t);
               month = pad2 (MonthFromTime (LocalTime tza t) + 1);
               day = pad2 (DateFromTime (LocalTime tza t));
               hours = pad2 (HourFromTime (LocalTime tza t));
               minutes = pad2 (MinFromTime (LocalTime tza t));
               seconds = pad2 (SecFromTime (LocalTime tza t))
           in intToString year @ ascii ''/'' @ month @ ascii ''/'' @ day @ ascii '' ''
                @ hours @ ascii '':'' @ minutes @ ascii '':'' @ seconds))"

datatype jserror = RangeError | URIError | InvalidCharacterError

text \<open>
  \<open>Date.prototype.toISOString\<close> throws a \<open>RangeError\<close> on an Invalid Date; years outside
  0 to 9999 are written with a sign and six digits.
\<close>

definition toISOString :: "Date \<Rightarrow> jserror + jsstring" where
  "toISOString date =
     (case date of
        None \<Rightarrow> Inl RangeError
      | Some t \<Rightarrow>
          (let y = YearFromTime t;
               year = (if 0 \<le> y \<and> y \<le> 9999 then padStart 4 48 (intToString y)
                       else (if y < 0 then 45 else 43) # padStart 6 48 (intToString \<bar>y\<bar>))
           in Inr (year @ ascii ''-'' @ pad2 (MonthFromTime t + 1) @ ascii ''-''
                   @ pad2 (DateFromTime t) @ ascii ''T'' @ pad2 (HourFromTime t) @ ascii '':''
                   @ pad2 (MinFromTime t) @ ascii '':'' @ pad2 (SecFromTime t) @ ascii ''.''
                   @ padStart 3 48 (intToString (msFromTime t)) @ ascii ''Z'')))"

subsection \<open>\<open>parseRelativeTime\<close>\<close>

text \<open>
  \<open>timeText.match(/(\d+)([smhd])/)\<close> finds the leftmost match. A match starts at the
  first digit of a maximal run of digits that is followed by one of \<open>s\<close>, \<open>m\<close>, \<open>h\<close>, \<open>d\<close>, and
  its first group is the whole run: \<open>\d+\<close> is greedy, and a shorter or later part of a
  run is followed by a digit or by the same character as the whole run.
  \<open>matchRelative run text\<close> scans \<open>text\<close> with the digits of the current run in \<open>run\<close>.
\<close>

definition isUnit :: "jschar \<Rightarrow> bool" where
  "isUnit c = (c = 115 \<or> c = 109 \<or> c = 104 \<or> c = 100)"

fun matchRelative :: "jsstring \<Rightarrow> jsstring \<Rightarrow> (jsstring \<times> jschar) option" where
  "matchRelative run [] = None"
| "matchRelative run (c # cs) =
     (if isDigit c then matchRelative (run @ [c]) cs
      else if run \<noteq> [] \<and> isUnit c then Some (run, c)
      else matchRelative [] cs)"

text \<open>
  \<open>now\<close> is the time value of \<open>new Date()\<close>, which is always valid. The source computes on
  doubles: \<open>parseInt\<close> and the products round above \<open>2^53\<close>. Whenever one of the two, the
  double or the integer result, is a valid time value, no step has rounded and the
  two are equal; otherwise both are invalid. The \<open>default\<close> branch of the \<open>switch\<close> is kept.
\<close>

definition parseRelativeTime :: "int \<Rightarrow> jsstring \<Rightarrow> Date" where
  "parseRelativeTime now timeText =
     (case matchRelative [] timeText of
        None \<Rightarrow> Some now
      | Some (digits, unit) \<Rightarrow>
          (let value = decimalValue digits in
           if unit = 115 then TimeClip (now - value * 1000)
           else if unit = 109 then TimeClip (now - value * 60 * 1000)
           else if unit = 104 then TimeClip (now - value * 60 * 60 * 1000)
           else if unit = 100 then TimeClip (now - value * 24 * 60 * 60 * 1000)
           else Some now))"

subsection \<open>The elements read from the page\<close>

text \<open>
  \<open>extractTweets\<close> reads a tweet element through DOM queries. The model holds what they
  return: whether one of the five advertisement checks fires, the text of the first
  \<open>[data-testid="User-Name"] span\<close> and of \<open>[data-testid="tweetText"]\<close> (\<open>None\<close> when there is
  no such element), and the \<open>time\<close> element with its \<open>datetime\<close> attribute (\<open>None\<close> when the
  attribute is missing) and its text.
\<close>

record TimeElement =
  datetime :: "jsstring option"
  timeText :: jsstring

record TweetElement =
  adDetected :: bool
  userName :: "jsstring option"
  tweetText :: "jsstring option"
  timeElement :: "TimeElement option"

text \<open>
  What the extraction of one element reads from its host: the clock and the random
  generator (\<open>new Date()\<close> in \<open>parseRelativeTime\<close>, and \<open>Date.now()\<close> and
  \<open>Math.random().toString(36)\<close> in the fallback id), and the number of arguments that the
  engine accepts in the call \<open>String.fromCharCode(...)\<close>. Engines differ in that number
  (tens or hundreds of thousands), and in some it depends on the stack left at the call.
\<close>

record Readings =
  newDate :: int
  dateNow :: int
  mathRandom :: jsstring
  maxArguments :: nat

text \<open>\<open>x || d\<close> for a string that may be missing: the empty string is falsy.\<close>

definition orDefault :: "jsstring option \<Rightarrow> jsstring \<Rightarrow> jsstring" where
  "orDefault x d = (case x of None \<Rightarrow> d | Some s \<Rightarrow> if s = [] then d else s)"

text \<open>
  The publish time of an element (the block "get time" of \<open>extractTweets\<close>). The inner
  \<open>try\<close> has no \<open>catch\<close> branch in the model: \<open>parseRelativeTime\<close> does not throw.
\<close>

definition resolvePublishTime :: "dateParse \<Rightarrow> int \<Rightarrow> TimeElement option \<Rightarrow> Date" where
  "resolvePublishTime parse now element =
     (let dateTimeAttr = (case element of None \<Rightarrow> None | Some e \<Rightarrow> datetime e) in
      if dateTimeAttr \<noteq> None \<and> dateTimeAttr \<noteq> Some [] then parse (the dateTimeAttr)
      else
        (let text = (case element of None \<Rightarrow> [] | Some e \<Rightarrow> timeText e);
             publishTime = parseRelativeTime now text
         in if publishTime = None then TimeClip 0 else publishTime))"

subsection \<open>Encoding of the id\<close>

text \<open>
  \<open>TextEncoder.encode\<close> writes the UTF-8 bytes of a string: a surrogate pair is one code
  point of four bytes, and a surrogate that stands alone is replaced by U+FFFD.
\<close>

type_synonym byte = "8 word"

definition isHighSurrogate :: "jschar \<Rightarrow> bool" where
  "isHighSurrogate u = (0xD800 \<le> u \<and> u \<le> 0xDBFF)"

definition isLowSurrogate :: "jschar \<Rightarrow> bool" where
  "isLowSurrogate u = (0xDC00 \<le> u \<and> u \<le> 0xDFFF)"

definition codePointOfPair :: "jschar \<Rightarrow> jschar \<Rightarrow> nat" where
  "codePointOfPair u v = 0x10000 + (unat u - 0xD800) * 1024 + (unat v - 0xDC00)"

definition utf8CodePoint :: "nat \<Rightarrow> byte list" where
  "utf8CodePoint cp =
     (if cp < 0x80 then [of_nat cp]
      else if cp < 0x800 then [of_nat (0xC0 + cp div 64), of_nat (0x80 + cp mod 64)]
      else if cp < 0x10000 then
        [of_nat (0xE0 + cp div 4096), of_nat (0x80 + (cp div 64) mod 64),
         of_nat (0x80 + cp mod 64)]
      else
        [of_nat (0xF0 + cp div 262144), of_nat (0x80 + (cp div 4096) mod 64),
         of_nat (0x80 + (cp div 64) mod 64), of_nat (0x80 + cp mod 64)])"

fun utf8Encode :: "jsstring \<Rightarrow> byte list" where
  "utf8Encode [] = []"
| "utf8Encode [u] =
     (if isHighSurrogate u \<or> isLowSurrogate u then utf8CodePoint 0xFFFD
      else utf8CodePoint (unat u))"
| "utf8Encode (u # v # rest) =
     (if isHighSurrogate u \<and> isLowSurrogate v
      then utf8CodePoint (codePointOfPair u v) @ utf8Encode rest
      else if isHighSurrogate u \<or> isLowSurrogate u
      then utf8CodePoint 0xFFFD @ utf8Encode (v # rest)
      else utf8CodePoint (unat u) @ utf8Encode (v # rest))"

text \<open>
  \<open>String.fromCharCode(...Array.from(bytes))\<close> passes every byte as one argument of the
  call. With more bytes than the engine accepts arguments the call throws a
  \<open>RangeError\<close>; otherwise it returns the string whose code units are the bytes.
  \<open>btoa\<close> is the Base64 encoding of a string of code units below 256; on any other string
  it throws an \<open>InvalidCharacterError\<close>. The other functions take the whole string as one
  argument; the memory of the engine and the greatest length of a string are not part
  of the model.
\<close>

definition fromCharCode :: "nat \<Rightarrow> byte list \<Rightarrow> jserror + jsstring" where
  "fromCharCode maxArgs bytes =
     (if length bytes \<le> maxArgs then Inr (map ucast bytes) else Inl RangeError)"

definition base64Char :: "nat \<Rightarrow> jschar" where
  "base64Char i =
     (if i < 26 then of_nat (65 + i)
      else if i < 52 then of_nat (97 + (i - 26))
      else if i < 62 then of_nat (48 + (i - 52))
      else if i = 62 then 43 else 47)"

fun base64 :: "byte list \<Rightarrow> jsstring" where
  "base64 [] = []"
| "base64 [a] =
     [base64Char (unat a div 4), base64Char ((unat a mod 4) * 16), 61, 61]"
| "base64 [a, b] =
     [base64Char (unat a div 4), base64Char ((unat a mod 4) * 16 + unat b div 16),
      base64Char ((unat b mod 16) * 4), 61]"
| "base64 (a # b # c # rest) =
     [base64Char (unat a div 4), base64Char ((unat a mod 4) * 16 + unat b div 16),
      base64Char ((unat b mod 16) * 4 + unat c div 64), base64Char (unat c mod 64)]
     @ base64 rest"

definition btoa :: "jsstring \<Rightarrow> jserror + jsstring" where
  "btoa s =
     (if list_all (\<lambda>u. u \<le> 255) s then Inr (base64 (map ucast s))
      else Inl InvalidCharacterError)"

text \<open>\<open>.replace(/[^a-zA-Z0-9]/g, '').substring(0, 16)\<close>\<close>

definition isAlnum :: "jschar \<Rightarrow> bool" where
  "isAlnum c = ((48 \<le> c \<and> c \<le> 57) \<or> (65 \<le> c \<and> c \<le> 90) \<or> (97 \<le> c \<and> c \<le> 122))"

definition shortAlnum :: "jsstring \<Rightarrow> jsstring" where
  "shortAlnum s = take 16 (filter isAlnum s)"

text \<open>
  The functions of the \<open>catch\<close> branch. \<open>encodeURIComponent\<close> keeps the unreserved
  characters, writes every other code point as the \<open>%XX\<close> escapes of its UTF-8 bytes and
  throws a \<open>URIError\<close> on a surrogate that stands alone; \<open>unescape\<close> reads \<open>%XX\<close> and
  \<open>%uXXXX\<close> back into code units.
\<close>

definition isUnreserved :: "jschar \<Rightarrow> bool" where
  "isUnreserved c =
     (isAlnum c \<or> c = 45 \<or> c = 95 \<or> c = 46 \<or> c = 33 \<or> c = 126 \<or> c = 42 \<or> c = 39
      \<or> c = 40 \<or> c = 41)"

definition hexDigit :: "nat \<Rightarrow> jschar" where
  "hexDigit n = (if n < 10 then of_nat (48 + n) else of_nat (55 + n))"

definition percentEncode :: "byte list \<Rightarrow> jsstring" where
  "percentEncode bytes =
     concat (map (\<lambda>b. [37, hexDigit (unat b div 16), hexDigit (unat b mod 16)]) bytes)"

fun encodeURIComponent :: "jsstring \<Rightarrow> jserror + jsstring" where
  "encodeURIComponent [] = Inr []"
| "encodeURIComponent (u # rest) =
     (if isUnreserved u then
        (case encodeURIComponent rest of Inl e \<Rightarrow> Inl e | Inr r \<Rightarrow> Inr (u # r))
      else if isLowSurrogate u then Inl URIError
      else if isHighSurrogate u then
        (case rest of
           [] \<Rightarrow> Inl URIError
         | v # rest' \<Rightarrow>
             if isLowSurrogate v then
               (case encodeURIComponent rest' of
                  Inl e \<Rightarrow> Inl e
                | Inr r \<Rightarrow> Inr (percentEncode (utf8CodePoint (codePointOfPair u v)) @ r))
             else Inl URIError)
      else
        (case encodeURIComponent rest of
           Inl e \<Rightarrow> Inl e
         | Inr r \<Rightarrow> Inr (percentEncode (utf8CodePoint (unat u)) @ r)))"

definition isHex :: "jschar \<Rightarrow> bool" where
  "isHex c = ((48 \<le> c \<and> c \<le> 57) \<or> (65 \<le> c \<and> c \<le> 70) \<or> (97 \<le> c \<and> c \<le> 102))"

definition hexValue :: "jschar \<Rightarrow> nat" where
  "hexValue c =
     (if c \<le> 57 then unat c - 48 else if c \<le> 70 then unat c - 55 else unat c - 87)"

definition hexNumber :: "jsstring \<Rightarrow> nat" where
  "hexNumber ds = foldl (\<lambda>n c. 16 * n + hexValue c) 0 ds"

fun unescape :: "jsstring \<Rightarrow> jsstring" where
  "unescape [] = []"
| "unescape (c # rest) =
     (if c = 37 \<and> 5 \<le> length rest \<and> hd rest = 117 \<and> list_all isHex (take 4 (tl rest))
      then of_nat (hexNumber (take 4 (tl rest))) # unescape (drop 5 rest)
      else if c = 37 \<and> 2 \<le> length rest \<and> list_all isHex (take 2 rest)
      then of_nat (hexNumber (take 2 rest)) # unescape (drop 2 rest)
      else c # unescape rest)"

text \<open>
  The id of a post. \<open>idSource\<close> is \<open>author + content + publishTime.getTime()\<close>,
  \<open>primaryId\<close> is the \<open>try\<close> block and \<open>fallbackId\<close> the \<open>catch\<close> block,
  entered when the \<open>try\<close> block throws; \<open>generateId\<close> is the whole of "generate unique
  id", with the substitute for an empty id built from \<open>Date.now()\<close> and
  \<open>Math.random().toString(36)\<close>. An exception of the \<open>catch\<close> block leaves the
  computation without an id (\<open>Inl\<close>).
\<close>

definition idSource :: "jsstring \<Rightarrow> jsstring \<Rightarrow> Date \<Rightarrow> jsstring" where
  "idSource authorText contentText publishDate =
     authorText @ contentText @ numberToString publishDate"

definition primaryId :: "nat \<Rightarrow> jsstring \<Rightarrow> jserror + jsstring" where
  "primaryId maxArgs source =
     (case fromCharCode maxArgs (utf8Encode source) of
        Inl e \<Rightarrow> Inl e
      | Inr latin1 \<Rightarrow>
          (case btoa latin1 of
             Inl e \<Rightarrow> Inl e
           | Inr b \<Rightarrow> Inr (shortAlnum b)))"

definition fallbackId :: "jsstring \<Rightarrow> jserror + jsstring" where
  "fallbackId source =
     (case encodeURIComponent source of
        Inl e \<Rightarrow> Inl e
      | Inr escaped \<Rightarrow>
          (case btoa (unescape escaped) of
             Inl e \<Rightarrow> Inl e
           | Inr b \<Rightarrow> Inr (shortAlnum b)))"

definition emptyIdSubstitute :: "int \<Rightarrow> jsstring \<Rightarrow> jsstring" where
  "emptyIdSubstitute now random =
     ascii ''fallback_'' @ intToString now @ ascii ''_'' @ take 8 (drop 2 random)"

definition generateId :: "nat \<Rightarrow> int \<Rightarrow> jsstring \<Rightarrow> jsstring \<Rightarrow> jserror + jsstring" where
  "generateId maxArgs now random source =
     (case (case primaryId maxArgs source of
              Inl e \<Rightarrow> fallbackId source
            | Inr i \<Rightarrow> Inr i) of
        Inl e \<Rightarrow> Inl e
      | Inr i \<Rightarrow> Inr (if i = [] then emptyIdSubstitute now random else i))"

subsection \<open>\<open>extractTweets\<close>\<close>

text \<open>
  \<open>extractDetails\<close> is the body of the \<open>try\<close> block of one element: \<open>Inl\<close> is the exception
  that the \<open>catch\<close> of the loop logs before it goes on with the next element.
\<close>

definition extractDetails ::
  "dateParse \<Rightarrow> localTZA \<Rightarrow> Readings \<Rightarrow> TweetElement \<Rightarrow> jserror + TwitterPost" where
  "extractDetails parse tza readings tweetElement =
     (let authorText = orDefault (userName tweetElement) (ascii ''Unknown'');
          contentText = orDefault (tweetText tweetElement) [];
          publishDate = resolvePublishTime parse (newDate readings) (timeElement tweetElement)
      in case generateId (maxArguments readings) (dateNow readings) (mathRandom readings)
                (idSource authorText contentText publishDate) of
           Inl e \<Rightarrow> Inl e
         | Inr i \<Rightarrow>
             (case toISOString publishDate of
                Inl e \<Rightarrow> Inl e
              | Inr isoString \<Rightarrow>
                  Inr \<lparr>id_post = i, author = authorText, content = contentText,
                       timestamp = formatTimestamp tza publishDate, publishTime = isoString\<rparr>))"

fun extractTweets ::
  "dateParse \<Rightarrow> localTZA \<Rightarrow> (Readings \<times> TweetElement) list \<Rightarrow> TwitterPost list" where
  "extractTweets parse tza [] = []"
| "extractTweets parse tza ((readings, tweetElement) # rest) =
     (if adDetected tweetElement then extractTweets parse tza rest
      else (case extractDetails parse tza readings tweetElement of
              Inl e \<Rightarrow> extractTweets parse tza rest
            | Inr tweet \<Rightarrow> tweet # extractTweets parse tza rest))"

text \<open>
  \<open>isWellFormed\<close> is \<open>String.prototype.isWellFormed\<close>: no surrogate stands alone, that
  is, every high surrogate is followed by a low one and every low surrogate follows a
  high one.
\<close>

fun isWellFormed :: "jsstring \<Rightarrow> bool" where
  "isWellFormed [] = True"
| "isWellFormed [u] = (\<not> isHighSurrogate u \<and> \<not> isLowSurrogate u)"
| "isWellFormed (u # v # rest) =
     (if isHighSurrogate u \<and> isLowSurrogate v then isWellFormed rest
      else \<not> isHighSurrogate u \<and> \<not> isLowSurrogate u \<and> isWellFormed (v # rest))"

text \<open>What the claims say of an id: not empty, at most 16 characters, all of them alphanumeric.\<close>

definition validId :: "jsstring \<Rightarrow> bool" where
  "validId s = (s \<noteq> [] \<and> length s \<le> 16 \<and> list_all isAlnum s)"

subsection \<open>Relative-time tokens and display timestamps\<close>

text \<open>
  \<open>unitMilliseconds\<close> is the length of the unit of a relative-time token: seconds,
  minutes, hours and days. \<open>isDisplayTimestamp\<close> recognises the format
  \<open>YYYY/MM/DD HH:MM:SS\<close>: 19 characters, digits but for the separators.
  \<open>displayFields\<close> reads the six numbers that such a text shows: year, month, day,
  hours, minutes and seconds.
\<close>

definition unitMilliseconds :: "jschar \<Rightarrow> int" where
  "unitMilliseconds unit =
     (if unit = 115 then 1000 else if unit = 109 then 60000
      else if unit = 104 then 3600000 else 86400000)"

definition isDisplayTimestamp :: "jsstring \<Rightarrow> bool" where
  "isDisplayTimestamp s =
     (length s = 19 \<and> list_all isDigit (take 4 s) \<and> s ! 4 = 47
      \<and> list_all isDigit (take 2 (drop 5 s)) \<and> s ! 7 = 47
      \<and> list_all isDigit (take 2 (drop 8 s)) \<and> s ! 10 = 32
      \<and> list_all isDigit (take 2 (drop 11 s)) \<and> s ! 13 = 58
      \<and> list_all isDigit (take 2 (drop 14 s)) \<and> s ! 16 = 58
      \<and> list_all isDigit (take 2 (drop 17 s)))"

definition displayFields :: "jsstring \<Rightarrow> int list" where
  "displayFields s =
     map decimalValue
       [take 4 s, take 2 (drop 5 s), take 2 (drop 8 s), take 2 (drop 11 s),
        take 2 (drop 14 s), take 2 (drop 17 s)]"

subsection \<open>Concrete elements\<close>

definition exampleReadings :: Readings where
  "exampleReadings =
     \<lparr>newDate = 1700000000000, dateNow = 1700000000001, mathRandom = ascii ''0.4fzyo82mvyr'',
      maxArguments = 65536\<rparr>"

text \<open>
  A tweet with Chinese text whose \<open>time\<close> element has no \<open>datetime\<close> attribute and shows
  \<open>2h\<close>; the same tweet with a \<open>datetime\<close> attribute that is not a date; a tweet with no
  \<open>time\<close> element.
\<close>

definition relativeElement :: TweetElement where
  "relativeElement =
     \<lparr>adDetected = False, userName = Some (ascii ''alice''),
      tweetText = Some [0x4E2D, 0x6587],
      timeElement = Some \<lparr>datetime = None, timeText = ascii ''2h''\<rparr>\<rparr>"

definition garbledElement :: TweetElement where
  "garbledElement =
     \<lparr>adDetected = False, userName = Some (ascii ''alice''),
      tweetText = Some [0x4E2D, 0x6587],
      timeElement = Some \<lparr>datetime = Some (ascii ''not-a-date''), timeText = ascii ''2h''\<rparr>\<rparr>"

definition timelessElement :: TweetElement where
  "timelessElement =
     \<lparr>adDetected = False, userName = Some (ascii ''alice''),
      tweetText = Some [0x4E2D, 0x6587], timeElement = None\<rparr>"

text \<open>
  The instant that a relative-time token stands for at the evaluation instant \<open>now\<close>, and
  the post that \<open>extractTweets\<close> builds from \<open>relativeElement\<close> at \<open>exampleReadings\<close> in a
  host on UTC.
\<close>

definition relativeInstant :: "int \<Rightarrow> jsstring \<Rightarrow> jschar \<Rightarrow> int" where
  "relativeInstant now digits unit = now - decimalValue digits * unitMilliseconds unit"

definition relativePost :: TwitterPost where
  "relativePost =
     \<lparr>id_post = ascii ''YWxpY2XkuK3mlocx'', author = ascii ''alice'',
      content = [0x4E2D, 0x6587], timestamp = ascii ''2023/11/14 20:13:20'',
      publishTime = ascii ''2023-11-14T20:13:20.000Z''\<rparr>"

section \<open>Background script (chrome-extension/src/background): periodic refresh\<close>

text \<open>
  The module variables \<open>refreshIntervalId\<close>, \<open>twitterTabId\<close>, \<open>isReloadingForScrape\<close> and
  \<open>reloadingTabId\<close> are the state. Timer handles and tab ids are numbers; \<open>null\<close> is
  \<open>None\<close>.
\<close>

record MonitorState =
  refreshIntervalId :: "nat option"
  twitterTabId :: "nat option"
  isReloadingForScrape :: bool
  reloadingTabId :: "nat option"

text \<open>The calls to the host that the handlers make, in the order they are made.\<close>

datatype HostCall =
    ClearInterval nat
  | SetInterval nat nat
  | TabsReload nat
  | SendExecuteScrapeRequest nat

definition REFRESH_INTERVAL_MS :: nat where
  "REFRESH_INTERVAL_MS = 10000"

definition stopPeriodicRefresh :: "MonitorState \<Rightarrow> MonitorState \<times> HostCall list" where
  "stopPeriodicRefresh st =
     (case refreshIntervalId st of
        Some h \<Rightarrow> (st\<lparr>refreshIntervalId := None\<rparr>, [ClearInterval h])
      | None \<Rightarrow> (st, []))"

text \<open>
  \<open>startPeriodicRefresh\<close>: \<open>handle\<close> is the id that \<open>setInterval\<close> returns. The function
  passed to \<open>setInterval\<close> is \<open>intervalCallback\<close> below.
\<close>

definition startPeriodicRefresh :: "nat \<Rightarrow> MonitorState \<Rightarrow> MonitorState \<times> HostCall list" where
  "startPeriodicRefresh handle st =
     (let (st1, calls) = stopPeriodicRefresh st in
      if twitterTabId st1 = None then (st1, calls)
      else (st1\<lparr>refreshIntervalId := Some handle\<rparr>,
            calls @ [SetInterval handle REFRESH_INTERVAL_MS]))"

text \<open>
  The function run at every fire of the timer. The source tests \<open>twitterTabId === null\<close>
  twice in a row; both tests are kept.
\<close>

definition intervalCallback :: "MonitorState \<Rightarrow> MonitorState \<times> HostCall list" where
  "intervalCallback st =
     (if twitterTabId st = None then stopPeriodicRefresh st
      else if twitterTabId st = None then stopPeriodicRefresh st
      else (case twitterTabId st of
              Some tab \<Rightarrow>
                (st\<lparr>isReloadingForScrape := True, reloadingTabId := Some tab\<rparr>,
                 [TabsReload tab])
            | None \<Rightarrow> (st, [])))"

text \<open>
  The callback of \<open>chrome.tabs.reload\<close>; \<open>failed\<close> tells whether
  \<open>chrome.runtime.lastError\<close> is set.
\<close>

definition reloadCallback :: "bool \<Rightarrow> MonitorState \<Rightarrow> MonitorState \<times> HostCall list" where
  "reloadCallback failed st =
     (if failed then
        (let (st1, calls) = stopPeriodicRefresh st in
         (st1\<lparr>twitterTabId := None, isReloadingForScrape := False, reloadingTabId := None\<rparr>,
          calls))
      else (st, []))"

text \<open>What a list of host calls asks for.\<close>

fun isReload :: "HostCall \<Rightarrow> bool" where
  "isReload (TabsReload t) = True"
| "isReload _ = False"

fun isScrapeRequest :: "HostCall \<Rightarrow> bool" where
  "isScrapeRequest (SendExecuteScrapeRequest t) = True"
| "isScrapeRequest _ = False"

fun isSetInterval :: "HostCall \<Rightarrow> bool" where
  "isSetInterval (SetInterval h ms) = True"
| "isSetInterval _ = False"

definition timerOf :: "MonitorState \<Rightarrow> HostCall list" where
  "timerOf st = (case refreshIntervalId st of Some h \<Rightarrow> [ClearInterval h] | None \<Rightarrow> [])"

definition pollingWithoutTab :: MonitorState where
  "pollingWithoutTab =
     \<lparr>refreshIntervalId = Some 7, twitterTabId = None, isReloadingForScrape = False,
      reloadingTabId = None\<rparr>"

section \<open>Scroll collector (pages/content, \<open>twitterScraper\<close>)\<close>

record RawTweet =
  author :: jsstring
  displayTimestamp :: jsstring
  content :: jsstring
  rawDatetime :: jsstring

text \<open>
  The loop of \<open>scrapeTweetsWithScrolling\<close> has three exits: the \<open>break\<close> after the
  target is reached, the \<open>break\<close> after a scroll that found nothing new, and the loop
  condition. The source tells them apart by the message it logs; the model returns the
  exit taken, named after the stop reasons of the design.
\<close>

datatype StopReason = TargetReached | MaxAttemptsReached | NoNewContent

definition minTweetsToCollect :: nat where
  "minTweetsToCollect = 20"

definition maxScrollAttempts :: nat where
  "maxScrollAttempts = 10"

definition uniqueKey :: "RawTweet \<Rightarrow> jsstring" where
  "uniqueKey tweet = RawTweet.author tweet @ ascii ''-'' @ rawDatetime tweet"

text \<open>
  The \<open>forEach\<close> over one result of \<open>scrapeCurrentViewPortTweets\<close>: the state is
  \<open>collectedTweets\<close>, \<open>collectedTweetUniqueIdentifiers\<close> and
  \<open>foundNewTweetsInThisScroll\<close>.
\<close>

fun collectNew ::
  "RawTweet list \<Rightarrow> RawTweet list \<times> jsstring set \<times> bool
     \<Rightarrow> RawTweet list \<times> jsstring set \<times> bool" where
  "collectNew [] acc = acc"
| "collectNew (tweet # rest) (collected, ids, found) =
     (if uniqueKey tweet \<notin> ids
      then collectNew rest (collected @ [tweet], insert (uniqueKey tweet) ids, True)
      else collectNew rest (collected, ids, found))"

text \<open>
  \<open>views k\<close> is what \<open>scrapeCurrentViewPortTweets\<close> returns at its call number \<open>k\<close>
  (from 0), that is, in the iteration entered with \<open>scrollAttempts = k\<close>. The result is
  the list returned, the final \<open>scrollAttempts\<close> and the exit taken.
\<close>

function scrollLoop ::
  "(nat \<Rightarrow> RawTweet list) \<Rightarrow> nat \<Rightarrow> RawTweet list \<Rightarrow> jsstring set
     \<Rightarrow> RawTweet list \<times> nat \<times> StopReason" where
  "scrollLoop views scrollAttempts collected ids =
     (if length collected < minTweetsToCollect \<and> scrollAttempts < maxScrollAttempts then
        (case collectNew (views scrollAttempts) (collected, ids, False) of
           (collected', ids', found) \<Rightarrow>
             if length collected' \<ge> minTweetsToCollect \<and> scrollAttempts + 1 > 0
             then (collected', scrollAttempts + 1, TargetReached)
             else if \<not> found \<and> scrollAttempts + 1 > 1
             then (collected', scrollAttempts + 1, NoNewContent)
             else scrollLoop views (scrollAttempts + 1) collected' ids')
      else (collected, scrollAttempts,
            if length collected < minTweetsToCollect then MaxAttemptsReached
            else TargetReached))"
  by pat_completeness auto
termination
  by (relation "measure (\<lambda>(views, scrollAttempts, collected, ids). maxScrollAttempts - scrollAttempts)")
     auto

declare scrollLoop.simps [simp del]

definition scrapeTweetsWithScrolling ::
  "(nat \<Rightarrow> RawTweet list) \<Rightarrow> RawTweet list \<times> nat \<times> StopReason" where
  "scrapeTweetsWithScrolling views = scrollLoop views 0 [] {}"

subsection \<open>The steps of a run, without the stopping rule\<close>

text \<open>
  \<open>afterSteps views k\<close> is the list and the set of keys accumulated by the first \<open>k\<close>
  steps, \<open>countAfter views k\<close> the number of tweets accumulated by then, and
  \<open>stillCollecting views k\<close> says that none of the first \<open>k\<close> steps reaches the target
  or, being after the first, adds nothing.
\<close>

fun withoutFlag :: "RawTweet list \<times> jsstring set \<times> bool \<Rightarrow> RawTweet list \<times> jsstring set" where
  "withoutFlag (collected, ids, found) = (collected, ids)"

fun oneStep :: "RawTweet list \<Rightarrow> RawTweet list \<times> jsstring set \<Rightarrow> RawTweet list \<times> jsstring set" where
  "oneStep view (collected, ids) = withoutFlag (collectNew view (collected, ids, False))"

fun afterSteps :: "(nat \<Rightarrow> RawTweet list) \<Rightarrow> nat \<Rightarrow> RawTweet list \<times> jsstring set" where
  "afterSteps views 0 = ([], {})"
| "afterSteps views (Suc k) = oneStep (views k) (afterSteps views k)"

definition countAfter :: "(nat \<Rightarrow> RawTweet list) \<Rightarrow> nat \<Rightarrow> nat" where
  "countAfter views k = length (fst (afterSteps views k))"

fun stillCollecting :: "(nat \<Rightarrow> RawTweet list) \<Rightarrow> nat \<Rightarrow> bool" where
  "stillCollecting views 0 = True"
| "stillCollecting views (Suc k) =
     (stillCollecting views k
      \<and> countAfter views (Suc k) < minTweetsToCollect
      \<and> (k = 0 \<or> countAfter views k < countAfter views (Suc k)))"

subsection \<open>Concrete feeds\<close>

definition exampleRaw :: "nat \<Rightarrow> RawTweet" where
  "exampleRaw n =
     \<lparr>author = ascii ''al'',
      displayTimestamp = ascii ''2024/01/01 00:00:00'',
      content = ascii ''hello'',
      rawDatetime = natToString n\<rparr>"

text \<open>
  \<open>freshViews\<close>: every step shows one tweet not seen before; \<open>staleViews\<close>: every step
  shows the same two tweets; \<open>fullViews\<close>: every step shows ten tweets not seen before;
  \<open>emptyViews\<close>: no step shows a tweet; \<open>endingViews\<close>: each of the first nine steps shows
  one tweet not seen before, and the steps after them show nothing.
\<close>

definition freshViews :: "nat \<Rightarrow> RawTweet list" where
  "freshViews k = [exampleRaw k]"

definition staleViews :: "nat \<Rightarrow> RawTweet list" where
  "staleViews k = [exampleRaw 0, exampleRaw 1]"

definition fullViews :: "nat \<Rightarrow> RawTweet list" where
  "fullViews k = map exampleRaw [10 * k..<10 * k + 10]"

definition emptyViews :: "nat \<Rightarrow> RawTweet list" where
  "emptyViews k = []"

definition endingViews :: "nat \<Rightarrow> RawTweet list" where
  "endingViews k = (if k < 9 then [exampleRaw k] else [])"
section \<open>Facts about numbers and strings\<close>

text \<open>\<open>parseInt(String(n))\<close> is \<open>n\<close>; hence \<open>String\<close> is injective on the naturals.\<close>

lemma digitValue_digit: "m < 10 \<Longrightarrow> digitValue (of_nat (48 + m)) = int m"
proof -
  assume m: "m < 10"
  have "unat (of_nat (48 + m) :: 16 word) = 48 + m"
    by (rule of_nat_inverse [OF refl]) (use m in simp)
  then have "uint (of_nat (48 + m) :: 16 word) = int (48 + m)"
    by (simp only: uint_nat)
  then show ?thesis by (simp add: digitValue_def del: of_nat_add)
qed

lemma decimalValue_snoc: "decimalValue (ds @ [d]) = 10 * decimalValue ds + digitValue d"
  by (simp add: decimalValue_def)

lemma decimalValue_natToString: "decimalValue (natToString n) = int n"
proof (induction n rule: natToString.induct)
  case (1 n)
  show ?case
  proof (cases "n < 10")
    case True
    then show ?thesis
      using digitValue_digit [of n]
      by (subst natToString.simps) (simp add: decimalValue_def)
  next
    case False
    have "n mod 10 < 10" by simp
    then have d: "digitValue (of_nat (48 + n mod 10)) = int (n mod 10)"
      by (rule digitValue_digit)
    have "decimalValue (natToString n)
            = 10 * decimalValue (natToString (n div 10)) + int (n mod 10)"
      using False d by (subst natToString.simps) (simp add: decimalValue_snoc)
    also have "\<dots> = 10 * int (n div 10) + int (n mod 10)"
      using 1 False by simp
    also have "\<dots> = int n"
      by (simp add: zdiv_int zmod_int)
    finally show ?thesis .
  qed
qed

lemma natToString_inject: "(natToString m = natToString n) = (m = n)"
  by (metis decimalValue_natToString of_nat_eq_iff)

section \<open>Verification of the retention store\<close>

subsection \<open>The sort\<close>

lemma mset_insertWith: "mset (insertWith c x xs) = add_mset x (mset xs)"
  by (induction xs) auto

lemma mset_sortWith: "mset (sortWith c xs) = mset xs"
  by (induction xs) (auto simp: mset_insertWith)

lemma set_insertWith: "set (insertWith c x xs) = insert x (set xs)"
  by (metis mset_insertWith set_mset_add_mset_insert set_mset_mset)

lemma set_sortWith: "set (sortWith c xs) = set xs"
  by (metis mset_sortWith set_mset_mset)

lemma distinct_map_sortWith: "distinct (map f (sortWith c xs)) = distinct (map f xs)"
proof -
  have "mset (map f (sortWith c xs)) = mset (map f xs)"
    by (simp add: mset_sortWith)
  then show ?thesis by (rule mset_eq_imp_distinct_iff)
qed

lemma insertWith_oldest:
  "\<forall>y\<in>set ys. \<not> cmp x y \<le> 0 \<Longrightarrow> insertWith cmp x ys = ys @ [x]"
  by (induction ys) auto

subsection \<open>Order of instants\<close>

lemma instantGe_trans: "instantGe a b \<Longrightarrow> instantGe b c \<Longrightarrow> instantGe a c"
  by (cases a; cases b; cases c) auto

lemma instantLt_trans: "instantLt a b \<Longrightarrow> instantLt b c \<Longrightarrow> instantLt a c"
  by (cases a; cases b; cases c) auto

lemma instantGe_valid: "instantGe a b \<Longrightarrow> a \<noteq> None \<and> b \<noteq> None"
  by (cases a; cases b) auto

lemma instantLt_valid: "instantLt a b \<Longrightarrow> a \<noteq> None \<and> b \<noteq> None"
  by (cases a; cases b) auto

lemma descendingDates_iff:
  "descendingDates ds = (list_all (\<lambda>d. d \<noteq> None) ds \<and> sorted_wrt instantGe ds)"
proof (induction ds rule: descendingDates.induct)
  case 1
  then show ?case by simp
next
  case (2 a)
  then show ?case by simp
next
  case (3 a b ds)
  have "(\<forall>x\<in>set ds. instantGe a x)" if "instantGe a b" "\<forall>x\<in>set ds. instantGe b x"
    using that instantGe_trans by blast
  with 3 show ?case
    using instantGe_valid [of a b] by auto
qed

lemma increasingDates_iff:
  "increasingDates ds = (list_all (\<lambda>d. d \<noteq> None) ds \<and> sorted_wrt instantLt ds)"
proof (induction ds rule: increasingDates.induct)
  case 1
  then show ?case by simp
next
  case (2 a)
  then show ?case by simp
next
  case (3 a b ds)
  have "(\<forall>x\<in>set ds. instantLt a x)" if "instantLt a b" "\<forall>x\<in>set ds. instantLt b x"
    using that instantLt_trans by blast
  with 3 show ?case
    using instantLt_valid [of a b] by auto
qed

lemma sortedDescending_iff:
  "sortedDescending parse ps =
     (validInstants parse ps \<and>
      sorted_wrt (\<lambda>a b. instantGe (parse (publishTime a)) (parse (publishTime b))) ps)"
  by (simp add: descendingDates_iff instants_def sortedDescending_def validInstants_def
      list_all_iff sorted_wrt_map)

lemma strictlyIncreasing_iff:
  "strictlyIncreasing parse ps =
     (validInstants parse ps \<and>
      sorted_wrt (\<lambda>a b. instantLt (parse (publishTime a)) (parse (publishTime b))) ps)"
  by (simp add: increasingDates_iff instants_def strictlyIncreasing_def validInstants_def
      list_all_iff sorted_wrt_map)

lemma compare_le_iff:
  "parse (publishTime x) \<noteq> None \<Longrightarrow> parse (publishTime y) \<noteq> None \<Longrightarrow>
   (comparePublishTime parse x y \<le> 0)
     = instantGe (parse (publishTime x)) (parse (publishTime y))"
  by (auto simp: comparePublishTime_def)

lemma compare_gt_imp:
  "parse (publishTime x) \<noteq> None \<Longrightarrow> parse (publishTime y) \<noteq> None \<Longrightarrow>
   \<not> comparePublishTime parse x y \<le> 0 \<Longrightarrow>
   instantGe (parse (publishTime y)) (parse (publishTime x))"
  by (auto simp: comparePublishTime_def)

lemma compare_older:
  "instantLt (parse (publishTime x)) (parse (publishTime y)) \<Longrightarrow>
   \<not> comparePublishTime parse x y \<le> 0"
  by (cases "parse (publishTime x)"; cases "parse (publishTime y)")
     (auto simp: comparePublishTime_def)

lemma validInstants_append:
  "validInstants parse (xs @ ys) = (validInstants parse xs \<and> validInstants parse ys)"
  by (simp add: validInstants_def)

lemma validInstants_filter: "validInstants parse xs \<Longrightarrow> validInstants parse (filter P xs)"
  by (simp add: validInstants_def list_all_iff)

subsection \<open>The sorted list is in descending order\<close>

lemma sorted_insertWith:
  assumes "validInstants parse (x # ys)"
    and "sorted_wrt (\<lambda>a b. instantGe (parse (publishTime a)) (parse (publishTime b))) ys"
  shows "sorted_wrt (\<lambda>a b. instantGe (parse (publishTime a)) (parse (publishTime b)))
           (insertWith (comparePublishTime parse) x ys)"
  using assms
proof (induction ys)
  case Nil
  then show ?case by simp
next
  case (Cons y ys)
  have vx: "parse (publishTime x) \<noteq> None" and vy: "parse (publishTime y) \<noteq> None"
    using Cons.prems(1) by (simp_all add: validInstants_def)
  show ?case
  proof (cases "comparePublishTime parse x y \<le> 0")
    case True
    then have xy: "instantGe (parse (publishTime x)) (parse (publishTime y))"
      using compare_le_iff [OF vx vy] by simp
    have "\<forall>z\<in>set ys. instantGe (parse (publishTime x)) (parse (publishTime z))"
      using Cons.prems(2) xy instantGe_trans by auto
    with True xy Cons.prems(2) show ?thesis by simp
  next
    case False
    then have yx: "instantGe (parse (publishTime y)) (parse (publishTime x))"
      using compare_gt_imp [OF vx vy] by simp
    have "validInstants parse (x # ys)"
      using Cons.prems(1) by (simp add: validInstants_def)
    then have "sorted_wrt (\<lambda>a b. instantGe (parse (publishTime a)) (parse (publishTime b)))
           (insertWith (comparePublishTime parse) x ys)"
      using Cons.IH Cons.prems(2) by simp
    with False yx Cons.prems(2) show ?thesis
      by (simp add: set_insertWith)
  qed
qed

lemma sorted_sortWith:
  "validInstants parse xs \<Longrightarrow>
   sortedDescending parse (sortWith (comparePublishTime parse) xs)"
proof (induction xs)
  case Nil
  then show ?case by (simp add: sortedDescending_iff validInstants_def)
next
  case (Cons x xs)
  then have v: "validInstants parse xs" by (simp add: validInstants_def)
  have "validInstants parse (x # sortWith (comparePublishTime parse) xs)"
    using Cons.prems by (simp add: validInstants_def list_all_iff set_sortWith)
  moreover have "sorted_wrt (\<lambda>a b. instantGe (parse (publishTime a)) (parse (publishTime b)))
     (sortWith (comparePublishTime parse) xs)"
    using Cons.IH [OF v] by (simp add: sortedDescending_iff)
  ultimately show ?case
    using sorted_insertWith [of parse x "sortWith (comparePublishTime parse) xs"] Cons.prems
    by (simp add: sortedDescending_iff validInstants_def list_all_iff set_insertWith
        set_sortWith)
qed

lemma sortedDescending_take:
  "sortedDescending parse xs \<Longrightarrow> sortedDescending parse (take n xs)"
  by (auto simp: sortedDescending_iff validInstants_def list_all_iff dest: in_set_takeD)

text \<open>A list in descending order is left as it is, and an increasing one is reversed.\<close>

lemma sortWith_sorted_id:
  "sortedDescending parse xs \<Longrightarrow> sortWith (comparePublishTime parse) xs = xs"
proof (induction xs)
  case Nil
  then show ?case by simp
next
  case (Cons x xs)
  then have s: "sortedDescending parse xs"
    by (simp add: sortedDescending_iff validInstants_def)
  have "insertWith (comparePublishTime parse) x xs = x # xs"
  proof (cases xs)
    case Nil
    then show ?thesis by simp
  next
    case (Cons y ys)
    with Cons.prems have "instantGe (parse (publishTime x)) (parse (publishTime y))"
      by (simp add: sortedDescending_iff)
    then have "comparePublishTime parse x y \<le> 0"
      by (cases "parse (publishTime x)"; cases "parse (publishTime y)")
         (auto simp: comparePublishTime_def)
    with Cons show ?thesis by simp
  qed
  with Cons.IH [OF s] show ?case by simp
qed

lemma sortWith_increasing:
  "strictlyIncreasing parse xs \<Longrightarrow> sortWith (comparePublishTime parse) xs = rev xs"
proof (induction xs)
  case Nil
  then show ?case by simp
next
  case (Cons x xs)
  then have inc: "strictlyIncreasing parse xs"
    by (simp add: strictlyIncreasing_iff validInstants_def)
  have "\<forall>y\<in>set xs. instantLt (parse (publishTime x)) (parse (publishTime y))"
    using Cons.prems by (simp add: strictlyIncreasing_iff)
  then have "\<forall>y\<in>set (rev xs). \<not> comparePublishTime parse x y \<le> 0"
    using compare_older by auto
  then have "insertWith (comparePublishTime parse) x (rev xs) = rev xs @ [x]"
    by (rule insertWith_oldest)
  with Cons.IH [OF inc] show ?case by simp
qed

subsection \<open>One call of \<open>addPosts\<close>\<close>

lemma addPosts_posts:
  "posts (fst (addPosts parse now st batch)) =
     take 20 (sortWith (comparePublishTime parse)
       (filter (\<lambda>p. id_post p \<notin> set (map id_post (posts st))) batch @ posts st))"
  by (simp add: addPosts_def Let_def)

lemma addPosts_length: "length (posts (fst (addPosts parse now st batch))) \<le> 20"
  by (simp add: addPosts_posts)

lemma addPosts_sorted:
  assumes "validInstants parse batch" and "validInstants parse (posts st)"
  shows "sortedDescending parse (posts (fst (addPosts parse now st batch)))"
  unfolding addPosts_posts
  by (intro sortedDescending_take sorted_sortWith)
     (simp add: validInstants_append validInstants_filter assms)

lemma addPosts_unique:
  assumes "uniqueIds batch" and "uniqueIds (posts st)"
  shows "uniqueIds (posts (fst (addPosts parse now st batch)))"
proof -
  let ?new = "filter (\<lambda>p. id_post p \<notin> set (map id_post (posts st))) batch"
  have "distinct (map id_post ?new)"
    using assms(1) by (simp add: uniqueIds_def distinct_map_filter)
  moreover have "set (map id_post ?new) \<inter> set (map id_post (posts st)) = {}"
    by auto
  ultimately have "distinct (map id_post (?new @ posts st))"
    using assms(2) by (simp add: uniqueIds_def)
  then have "distinct (map id_post (sortWith (comparePublishTime parse) (?new @ posts st)))"
    by (simp only: distinct_map_sortWith)
  then have "distinct (take 20 (map id_post
               (sortWith (comparePublishTime parse) (?new @ posts st))))"
    by (rule distinct_take)
  then show ?thesis
    by (simp add: uniqueIds_def addPosts_posts take_map)
qed

lemma addPosts_nothing_novel:
  assumes "allKnown st batch" and "storeInvariant parse st"
  shows "addPosts parse now st batch = (st\<lparr>lastFetchTime := now, isFirstTime := False\<rparr>, 0)"
proof -
  have f: "filter (\<lambda>p. id_post p \<notin> set (map id_post (posts st))) batch = []"
    using assms(1) by (auto simp: allKnown_def list_all_iff filter_empty_conv)
  have "take 20 (sortWith (comparePublishTime parse) (posts st)) = posts st"
    using assms(2) by (simp add: storeInvariant_def sortWith_sorted_id)
  with f show ?thesis
    by (simp add: addPosts_def Let_def)
qed

lemma addPosts_increasing_batch:
  assumes "length batch = 25" and "strictlyIncreasing parse batch"
  shows "addPosts parse now defaultState batch =
           (\<lparr>posts = rev (drop 5 batch), lastFetchTime = now, isFirstTime = False\<rparr>, 25)"
proof -
  have "take 20 (rev batch) = rev (drop 5 batch)"
    using assms(1) by (simp add: take_rev)
  then show ?thesis
    using assms(1) sortWith_increasing [OF assms(2)]
    by (simp add: addPosts_def defaultState_def)
qed

subsection \<open>Runs of \<open>addPosts\<close>\<close>

lemma run_sorted:
  "validInstants parse (posts st) \<Longrightarrow> validBatches parse calls \<Longrightarrow>
   allSortedBounded parse (addPostsRun parse st calls)"
proof (induction calls arbitrary: st)
  case Nil
  then show ?case by (simp add: allSortedBounded_def)
next
  case (Cons c calls)
  obtain now batch where c: "c = (now, batch)" by (cases c)
  let ?st = "fst (addPosts parse now st batch)"
  have vb: "validInstants parse batch" and vc: "validBatches parse calls"
    using Cons.prems(2) c by (simp_all add: validBatches_def)
  have s: "sortedDescending parse (posts ?st)"
    using addPosts_sorted [OF vb Cons.prems(1)] .
  then have "validInstants parse (posts ?st)"
    by (simp add: sortedDescending_iff)
  from Cons.IH [OF this vc] s show ?case
    by (simp add: c allSortedBounded_def storeInvariant_def addPosts_length Let_def)
qed

lemma run_unique:
  "uniqueIds (posts st) \<Longrightarrow> distinctBatches calls \<Longrightarrow>
   allUniqueIds (addPostsRun parse st calls)"
proof (induction calls arbitrary: st)
  case Nil
  then show ?case by (simp add: allUniqueIds_def)
next
  case (Cons c calls)
  obtain now batch where c: "c = (now, batch)" by (cases c)
  let ?st = "fst (addPosts parse now st batch)"
  have ub: "uniqueIds batch" and dc: "distinctBatches calls"
    using Cons.prems(2) c by (simp_all add: distinctBatches_def)
  have u: "uniqueIds (posts ?st)"
    using addPosts_unique [OF ub Cons.prems(1)] .
  from Cons.IH [OF u dc] u show ?case
    by (simp add: c allUniqueIds_def Let_def)
qed

text \<open>
  Claim C1, as amended. In every run of \<open>addPosts\<close> from the default state on posts with
  valid instants, the stored list is in descending order of \<open>publishTime\<close> and at most 20
  long after every call. Its ids are pairwise distinct after every call when, in
  addition, no batch carries an id twice: \<open>addPosts\<close> drops the posts whose id is stored
  and keeps every other post of the batch.
\<close>

theorem addPosts_run_invariant:
  "validBatches parse calls \<Longrightarrow>
     allSortedBounded parse (addPostsRun parse defaultState calls) \<and>
     (distinctBatches calls \<longrightarrow> allUniqueIds (addPostsRun parse defaultState calls))"
  using run_sorted [of parse defaultState calls] run_unique [of defaultState calls parse]
  by (simp add: defaultState_def validInstants_def uniqueIds_def)

theorem addPosts_run_invariant_witness:
  "validBatches isoDateParse exampleCalls \<and> distinctBatches exampleCalls \<and>
   allSortedBounded isoDateParse (addPostsRun isoDateParse defaultState exampleCalls) \<and>
   allUniqueIds (addPostsRun isoDateParse defaultState exampleCalls)"
proof -
  have v: "validBatches isoDateParse exampleCalls" by code_simp
  have d: "distinctBatches exampleCalls" by code_simp
  from addPosts_run_invariant [OF v] v d show ?thesis by simp
qed

text \<open>
  Claim C1 as stated fails: one call with a batch of two posts that share an id stores
  both.
\<close>

theorem addPosts_duplicate_ids_counterexample:
  "validBatches isoDateParse duplicateCalls \<and>
   \<not> allUniqueIds (addPostsRun isoDateParse defaultState duplicateCalls)"
  by code_simp

text \<open>
  Claim C2, as amended. When every post of the batch carries a stored id and the stored
  list is in descending order and at most 20 long (as it is after every call of
  \<open>addPosts\<close>), \<open>addPosts\<close> returns 0 and leaves \<open>posts\<close> as it is; it sets \<open>lastFetchTime\<close>
  to the current instant and \<open>isFirstTime\<close> to false.
\<close>

theorem addPosts_all_known:
  "storeInvariant parse st \<Longrightarrow> allKnown st batch \<Longrightarrow>
   posts (fst (addPosts parse now st batch)) = posts st \<and>
   lastFetchTime (fst (addPosts parse now st batch)) = now \<and>
   isFirstTime (fst (addPosts parse now st batch)) = False \<and>
   snd (addPosts parse now st batch) = 0"
  by (simp add: addPosts_nothing_novel)

theorem addPosts_all_known_witness:
  "storeInvariant isoDateParse knownState \<and> allKnown knownState [examplePost 1] \<and>
   posts (fst (addPosts isoDateParse exampleNow knownState [examplePost 1]))
     = posts knownState \<and>
   lastFetchTime (fst (addPosts isoDateParse exampleNow knownState [examplePost 1]))
     = exampleNow \<and>
   isFirstTime (fst (addPosts isoDateParse exampleNow knownState [examplePost 1])) = False \<and>
   snd (addPosts isoDateParse exampleNow knownState [examplePost 1]) = 0"
proof -
  have i: "storeInvariant isoDateParse knownState" by code_simp
  have k: "allKnown knownState [examplePost 1]" by code_simp
  from addPosts_all_known [OF i k] i k show ?thesis by simp
qed

text \<open>
  Claim C2 as stated fails: \<open>lastFetchTime\<close> is overwritten with the clock reading also
  when nothing is novel, and a stored list that is not in descending order is reordered.
\<close>

theorem addPosts_all_known_counterexample:
  "allKnown knownState [examplePost 1] \<and>
   lastFetchTime (fst (addPosts isoDateParse exampleNow knownState [examplePost 1]))
     \<noteq> lastFetchTime knownState \<and>
   allKnown unsortedState [examplePost 1] \<and>
   posts (fst (addPosts isoDateParse exampleNow unsortedState [examplePost 1]))
     \<noteq> posts unsortedState"
  by code_simp

lemma exampleBatch_unique: "uniqueIds exampleBatch"
  by code_simp

lemma exampleBatch_increasing: "strictlyIncreasing isoDateParse exampleBatch"
  by code_simp

text \<open>
  Claim C3, as amended. From the default state, a batch of 25 posts with pairwise
  distinct ids and strictly increasing instants leaves the 20 newest posts stored,
  newest first, with \<open>isFirstTime\<close> false; \<open>lastFetchTime\<close> is the clock reading of the
  call, and the count returned is 25.
\<close>

theorem addPosts_first_batch:
  "length batch = 25 \<Longrightarrow> uniqueIds batch \<Longrightarrow> strictlyIncreasing parse batch \<Longrightarrow>
   addPosts parse now defaultState batch =
     (\<lparr>posts = rev (drop 5 batch), lastFetchTime = now, isFirstTime = False\<rparr>, 25)"
  by (rule addPosts_increasing_batch)

theorem addPosts_first_batch_witness:
  "length exampleBatch = 25 \<and> uniqueIds exampleBatch \<and>
   strictlyIncreasing isoDateParse exampleBatch \<and>
   addPosts isoDateParse exampleNow defaultState exampleBatch =
     (\<lparr>posts = rev (drop 5 exampleBatch), lastFetchTime = exampleNow,
       isFirstTime = False\<rparr>, 25)"
proof -
  have l: "length exampleBatch = 25" by (simp add: exampleBatch_def)
  from addPosts_first_batch [OF l exampleBatch_unique exampleBatch_increasing]
    l exampleBatch_unique exampleBatch_increasing
  show ?thesis by simp
qed

text \<open>
  Claim C3 as stated fails: after the merge \<open>lastFetchTime\<close> is the clock reading, which
  is not the instant of the newest stored post.
\<close>

theorem addPosts_lastFetchTime_counterexample:
  "length exampleBatch = 25 \<and> uniqueIds exampleBatch \<and>
   strictlyIncreasing isoDateParse exampleBatch \<and>
   isoDateParse (lastFetchTime (fst (addPosts isoDateParse exampleNow defaultState exampleBatch)))
     \<noteq> isoDateParse (publishTime (examplePost 24)) \<and>
   getLatestTimestamp isoDateParse (fst (addPosts isoDateParse exampleNow defaultState exampleBatch))
     = Some (isoDateParse (publishTime (examplePost 24)))"
proof -
  have l: "length exampleBatch = 25" by (simp add: exampleBatch_def)
  have "[0..<25] = [0..<24] @ [24::nat]"
    using upt_Suc_append [of 0 24] by simp
  then have e: "exampleBatch = map examplePost [0..<24] @ [examplePost 24]"
    by (simp add: exampleBatch_def)
  have r: "rev (drop 5 exampleBatch)
             = examplePost 24 # rev (drop 5 (map examplePost [0..<24]))"
    by (subst e) simp
  have n: "isoDateParse exampleNow \<noteq> isoDateParse (publishTime (examplePost 24))"
    by code_simp
  show ?thesis
    using l exampleBatch_unique exampleBatch_increasing n r
    by (simp add: addPosts_increasing_batch [OF l exampleBatch_increasing]
        getLatestTimestamp_def)
qed

text \<open>The posts that a filter keeps, counted by the values of a key.\<close>

lemma length_filter_sum_count:
  "length (filter (\<lambda>p. f p \<in> A) xs) = (\<Sum>i \<in> set (map f xs) \<inter> A. count_list (map f xs) i)"
proof (induction xs)
  case Nil
  then show ?case by simp
next
  case (Cons x xs)
  let ?S = "set (map f xs) \<inter> A"
  show ?case
  proof (cases "f x \<in> A")
    case False
    then have "set (map f (x # xs)) \<inter> A = ?S" by auto
    moreover have "(\<Sum>i \<in> ?S. count_list (map f (x # xs)) i)
                     = (\<Sum>i \<in> ?S. count_list (map f xs) i)"
      using False by (intro sum.cong) auto
    ultimately show ?thesis using False Cons.IH by simp
  next
    case True
    then have eq: "set (map f (x # xs)) \<inter> A = insert (f x) ?S" by auto
    have fin: "finite ?S" by simp
    have rest: "(\<Sum>i \<in> ?S - {f x}. count_list (map f (x # xs)) i)
                = (\<Sum>i \<in> ?S - {f x}. count_list (map f xs) i)"
      by (intro sum.cong) auto
    have "(\<Sum>i \<in> insert (f x) ?S. count_list (map f (x # xs)) i)
          = count_list (map f (x # xs)) (f x)
            + (\<Sum>i \<in> ?S - {f x}. count_list (map f (x # xs)) i)"
      using fin by (simp add: sum.insert_remove)
    then have a: "(\<Sum>i \<in> insert (f x) ?S. count_list (map f (x # xs)) i)
       = 1 + (count_list (map f xs) (f x)
              + (\<Sum>i \<in> ?S - {f x}. count_list (map f xs) i))"
      using rest by simp
    have b: "count_list (map f xs) (f x) + (\<Sum>i \<in> ?S - {f x}. count_list (map f xs) i)
               = (\<Sum>i \<in> ?S. count_list (map f xs) i)"
    proof (cases "f x \<in> ?S")
      case True
      then show ?thesis using fin by (simp add: sum.remove)
    next
      case False
      then have "f x \<notin> set (map f xs)" using True \<open>f x \<in> A\<close> by auto
      then have "count_list (map f xs) (f x) = 0" by (simp add: count_list_0_iff)
      with False show ?thesis by simp
    qed
    show ?thesis using True Cons.IH eq a b by simp
  qed
qed

text \<open>
  Claim C4, as amended. The count returned is the number of posts of the batch whose id
  is not stored: an id that is not stored counts once for every post of the batch that
  carries it. When the ids of the batch are pairwise distinct, the count is the number
  of distinct novel ids.
\<close>

theorem addPosts_count:
  "snd (addPosts parse now st batch)
     = (\<Sum>i \<in> novelIds st batch. count_list (map id_post batch) i) \<and>
   (uniqueIds batch \<longrightarrow> snd (addPosts parse now st batch) = card (novelIds st batch))"
proof -
  let ?A = "- set (map id_post (posts st))"
  have n: "novelIds st batch = set (map id_post batch) \<inter> ?A"
    by (auto simp: novelIds_def)
  have c: "snd (addPosts parse now st batch) = length (filter (\<lambda>p. id_post p \<in> ?A) batch)"
    by (simp add: addPosts_def Let_def)
  have s: "snd (addPosts parse now st batch)
     = (\<Sum>i \<in> novelIds st batch. count_list (map id_post batch) i)"
    unfolding c n by (rule length_filter_sum_count)
  moreover have "snd (addPosts parse now st batch) = card (novelIds st batch)"
    if "uniqueIds batch"
  proof -
    have "count_list (map id_post batch) i = 1" if "i \<in> novelIds st batch" for i
      using that \<open>uniqueIds batch\<close>
      by (simp add: novelIds_def uniqueIds_def distinct_count_atmost_1 flip: count_mset)
    then show ?thesis unfolding s by simp
  qed
  ultimately show ?thesis by blast
qed

theorem addPosts_count_witness:
  "uniqueIds [examplePost 1, examplePost 3] \<and>
   snd (addPosts isoDateParse exampleNow knownState [examplePost 1, examplePost 3])
     = card (novelIds knownState [examplePost 1, examplePost 3])"
proof -
  have u: "uniqueIds [examplePost 1, examplePost 3]" by code_simp
  from addPosts_count [of isoDateParse exampleNow knownState "[examplePost 1, examplePost 3]"] u
  show ?thesis by simp
qed

text \<open>
  Claim C4 as stated fails: two posts of one batch that share a novel id are counted
  twice.
\<close>

theorem addPosts_count_counterexample:
  "snd (addPosts isoDateParse exampleNow defaultState duplicateBatch) = 2 \<and>
   card (novelIds defaultState duplicateBatch) = 1"
  by code_simp


section \<open>Verification of the extraction\<close>

subsection \<open>Bytes, Base64 and the characters of an id\<close>

lemma unat_char: "n < 65536 \<Longrightarrow> unat (of_nat n :: 16 word) = n"
  by (rule of_nat_inverse [OF refl]) simp

lemma byte_lt: "unat (b :: byte) < 256"
  using unsigned_less [of b, where 'a = nat] by simp

lemma unat_ucast_byte: "unat (ucast (b :: byte) :: jschar) = unat b"
proof -
  have "take_bit 16 (unat b) = unat b"
    by (rule take_bit_nat_eq_self) (use byte_lt [of b] in simp)
  then show ?thesis
    by (simp add: unsigned_ucast_eq)
qed

lemma ucast_byte_bound: "(ucast (b :: byte) :: jschar) \<le> 255"
  using byte_lt [of b] by (simp add: word_le_nat_alt unat_ucast_byte)

lemma ucast_byte_id: "(ucast (ucast (b :: byte) :: jschar) :: byte) = b"
  by (rule ucast_up_ucast_id) (simp add: is_up)

lemma btoa_latin1: "btoa (map ucast (bytes :: byte list)) = Inr (base64 bytes)"
proof -
  have "list_all (\<lambda>u. u \<le> 255) (map ucast bytes :: jsstring)"
    by (simp add: list_all_iff ucast_byte_bound)
  moreover have "map ucast (map ucast bytes :: jsstring) = bytes"
    by (simp add: ucast_byte_id comp_def)
  ultimately show ?thesis by (simp add: btoa_def)
qed

text \<open>The \<open>try\<close> block throws exactly when the bytes are more than the engine accepts.\<close>

lemma primaryId_eq:
  "primaryId maxArgs s =
     (if length (utf8Encode s) \<le> maxArgs then Inr (shortAlnum (base64 (utf8Encode s)))
      else Inl RangeError)"
  by (simp add: primaryId_def fromCharCode_def btoa_latin1)

lemma isAlnum_of_nat:
  assumes "n < 65536"
  shows "isAlnum (of_nat n) = ((48 \<le> n \<and> n \<le> 57) \<or> (65 \<le> n \<and> n \<le> 90) \<or> (97 \<le> n \<and> n \<le> 122))"
proof -
  have u: "unat (of_nat n :: jschar) = n" using assms by (rule unat_char)
  show ?thesis unfolding isAlnum_def word_le_nat_alt u by simp
qed

lemma isAlnum_base64Char: "i < 62 \<Longrightarrow> isAlnum (base64Char i)"
proof -
  assume i: "i < 62"
  consider "i < 26" | "\<not> i < 26 \<and> i < 52" | "\<not> i < 26 \<and> \<not> i < 52 \<and> i < 62"
    using i by linarith
  then show ?thesis
  proof cases
    case 1
    then have "base64Char i = of_nat (65 + i)"
      unfolding base64Char_def by (simp only: if_True)
    moreover have "isAlnum (of_nat (65 + i))"
      by (subst isAlnum_of_nat) (use 1 in arith)+
    ultimately show ?thesis by (simp only:)
  next
    case 2
    then have "base64Char i = of_nat (97 + (i - 26))"
      unfolding base64Char_def by (simp only: if_True if_False)
    moreover have "isAlnum (of_nat (97 + (i - 26)))"
      by (subst isAlnum_of_nat) (use 2 in arith)+
    ultimately show ?thesis by (simp only:)
  next
    case 3
    then have "base64Char i = of_nat (48 + (i - 52))"
      unfolding base64Char_def by (simp only: if_True if_False)
    moreover have "isAlnum (of_nat (48 + (i - 52)))"
      by (subst isAlnum_of_nat) (use 3 in arith)+
    ultimately show ?thesis by (simp only:)
  qed
qed

lemma base64_has_alnum:
  "bytes \<noteq> [] \<Longrightarrow> unat (last bytes) < 128 \<Longrightarrow> \<exists>x\<in>set (base64 bytes). isAlnum x"
proof (induction bytes rule: base64.induct)
  case 1
  then show ?case by simp
next
  case (2 a)
  then have "unat a div 4 < 62" by simp
  then have "isAlnum (base64Char (unat a div 4))" by (rule isAlnum_base64Char)
  then show ?case by simp
next
  case (3 a b)
  then have b: "unat b div 16 < 8" by simp
  have "unat a mod 4 < 4" by simp
  then have "(unat a mod 4) * 16 + unat b div 16 < 62"
    using b by linarith
  then have "isAlnum (base64Char ((unat a mod 4) * 16 + unat b div 16))"
    by (rule isAlnum_base64Char)
  then show ?case by simp
next
  case (4 a b c rest)
  show ?case
  proof (cases "rest = []")
    case True
    with 4 have c: "unat c div 64 < 2" by simp
    have "unat b mod 16 < 16" by simp
    then have "(unat b mod 16) * 4 + unat c div 64 < 62"
      using c by linarith
    then have "isAlnum (base64Char ((unat b mod 16) * 4 + unat c div 64))"
      by (rule isAlnum_base64Char)
    then show ?thesis by simp
  next
    case False
    with 4 have "\<exists>x\<in>set (base64 rest). isAlnum x" by simp
    then show ?thesis by auto
  qed
qed

subsection \<open>The id of a post is never empty\<close>

text \<open>
  The id source ends with the digits of the time value, or with \<open>NaN\<close>: its last UTF-8
  byte is below 128. The Base64 character that holds the two highest bits of the last
  byte is therefore a letter or a digit, and the id is not empty.
\<close>

lemma small_not_surrogate: "(c::jschar) < 0x80 \<Longrightarrow> \<not> isHighSurrogate c \<and> \<not> isLowSurrogate c"
  by (simp add: isHighSurrogate_def isLowSurrogate_def word_le_nat_alt word_less_nat_alt)

lemma utf8CodePoint_small: "n < 0x80 \<Longrightarrow> utf8CodePoint n = [of_nat n]"
  by (simp add: utf8CodePoint_def)

lemma utf8Encode_snoc:
  assumes "(c::jschar) < 0x80"
  shows "utf8Encode (s @ [c]) = utf8Encode s @ [of_nat (unat c)]"
proof (induction s rule: utf8Encode.induct)
  case 1
  have "unat c < 0x80" using assms by (simp add: word_less_nat_alt)
  then show ?case
    using small_not_surrogate [OF assms] by (simp add: utf8CodePoint_small)
next
  case (2 u)
  have "unat c < 0x80" using assms by (simp add: word_less_nat_alt)
  then show ?case
    using small_not_surrogate [OF assms] by (simp add: utf8CodePoint_small)
next
  case (3 u v rest)
  then show ?case by simp
qed

lemma natToString_last:
  "\<exists>front. natToString n = front @ [of_nat (48 + n mod 10)]"
  by (subst natToString.simps) (cases "n < 10"; simp)

lemma digit_small: "m < 10 \<Longrightarrow> (of_nat (48 + m) :: jschar) < 0x80"
proof -
  assume "m < 10"
  then have "unat (of_nat (48 + m) :: jschar) = 48 + m" by (intro unat_char) simp
  with \<open>m < 10\<close> show ?thesis by (simp add: word_less_nat_alt del: of_nat_add)
qed

lemma numberToString_last: "\<exists>front c. numberToString d = front @ [c] \<and> c < 0x80"
proof (cases d)
  case None
  have "ascii ''NaN'' = ascii ''Na'' @ [78]" by (simp add: ascii_def)
  then show ?thesis using None by (auto simp: numberToString_def)
next
  case (Some t)
  obtain front where f: "natToString (nat \<bar>t\<bar>) = front @ [of_nat (48 + nat \<bar>t\<bar> mod 10)]"
    using natToString_last by blast
  have c: "(of_nat (48 + nat \<bar>t\<bar> mod 10) :: jschar) < 0x80"
    by (rule digit_small) simp
  show ?thesis
  proof (cases "t < 0")
    case True
    then have "numberToString d = (45 # front) @ [of_nat (48 + nat \<bar>t\<bar> mod 10)]"
      using Some f by (simp add: numberToString_def intToString_def abs_if)
    with c show ?thesis by blast
  next
    case False
    then have "numberToString d = front @ [of_nat (48 + nat \<bar>t\<bar> mod 10)]"
      using Some f by (simp add: numberToString_def intToString_def abs_if)
    with c show ?thesis by blast
  qed
qed

lemma idSource_encoding_nonempty:
  "shortAlnum (base64 (utf8Encode (idSource a c d))) \<noteq> []"
proof -
  obtain front x where n: "numberToString d = front @ [x]" and x: "x < 0x80"
    using numberToString_last by blast
  define b :: byte where "b = of_nat (unat x)"
  have i: "idSource a c d = (a @ c @ front) @ [x]" by (simp add: idSource_def n)
  have e: "utf8Encode (idSource a c d) = utf8Encode (a @ c @ front) @ [b]"
    unfolding i b_def by (rule utf8Encode_snoc [OF x])
  have ux: "unat x < 128" using x by (simp add: word_less_nat_alt)
  have "unat b = unat x"
    unfolding b_def by (rule of_nat_inverse [OF refl]) (use ux in simp)
  with ux have "unat (last (utf8Encode (idSource a c d))) < 128" by (simp add: e)
  moreover have "utf8Encode (idSource a c d) \<noteq> []" by (simp add: e)
  ultimately obtain y where "y \<in> set (base64 (utf8Encode (idSource a c d)))" and "isAlnum y"
    using base64_has_alnum by blast
  then have "filter isAlnum (base64 (utf8Encode (idSource a c d))) \<noteq> []"
    by (auto simp: filter_empty_conv)
  then show ?thesis by (simp add: shortAlnum_def)
qed

subsection \<open>The \<open>catch\<close> branch\<close>

text \<open>
  \<open>unescape(encodeURIComponent(s))\<close> is the string of the UTF-8 bytes of \<open>s\<close> when \<open>s\<close> is
  well formed, and \<open>encodeURIComponent\<close> throws a \<open>URIError\<close> when it is not. The \<open>catch\<close>
  branch therefore computes the id of the \<open>try\<close> block, or throws.
\<close>

lemma unat_hexDigit:
  "k < 16 \<Longrightarrow> unat (hexDigit k) = (if k < 10 then 48 + k else 55 + k)"
proof -
  assume k: "k < 16"
  have a: "unat (of_nat (48 + k) :: jschar) = 48 + k" by (rule unat_char) (use k in simp)
  have b: "unat (of_nat (55 + k) :: jschar) = 55 + k" by (rule unat_char) (use k in simp)
  show ?thesis
    unfolding hexDigit_def using a b by (simp del: of_nat_add)
qed

lemma hexDigit_not_u: "k < 16 \<Longrightarrow> hexDigit k \<noteq> 117"
proof
  assume k: "k < 16" and "hexDigit k = 117"
  then have "unat (hexDigit k) = unat (117 :: jschar)" by simp
  with k show False by (simp add: unat_hexDigit split: if_splits)
qed

lemma isHex_hexDigit: "k < 16 \<Longrightarrow> isHex (hexDigit k)"
  unfolding isHex_def word_le_nat_alt by (simp add: unat_hexDigit)

lemma hexValue_hexDigit: "k < 16 \<Longrightarrow> hexValue (hexDigit k) = k"
  unfolding hexValue_def word_le_nat_alt by (simp add: unat_hexDigit)

lemma ucast_of_unat_byte: "(of_nat (unat (b :: byte)) :: jschar) = ucast b"
  by simp

lemma unescape_escape:
  "unescape (37 # hexDigit (unat (b :: byte) div 16) # hexDigit (unat b mod 16) # rest)
     = ucast b # unescape rest"
proof -
  have h: "unat b div 16 < 16" "unat b mod 16 < 16"
    using byte_lt [of b] by simp_all
  have n: "hexNumber [hexDigit (unat b div 16), hexDigit (unat b mod 16)] = unat b"
    by (simp add: hexNumber_def hexValue_hexDigit h)
  show ?thesis
    using hexDigit_not_u [OF h(1)] isHex_hexDigit [OF h(1)] isHex_hexDigit [OF h(2)]
    by (simp add: n ucast_of_unat_byte)
qed

lemma unescape_percentEncode:
  "unescape (percentEncode bytes @ r) = map ucast bytes @ unescape r"
proof (induction bytes)
  case Nil
  then show ?case by (simp add: percentEncode_def)
next
  case (Cons b bytes)
  have "percentEncode (b # bytes) @ r
      = 37 # hexDigit (unat b div 16) # hexDigit (unat b mod 16) # (percentEncode bytes @ r)"
    by (simp add: percentEncode_def)
  then show ?case
    using Cons by (simp only: unescape_escape list.map append_Cons)
qed

lemma unreserved_small: "isUnreserved u \<Longrightarrow> u < 0x80 \<and> u \<noteq> 37"
  unfolding isUnreserved_def isAlnum_def word_le_nat_alt word_less_nat_alt
  by auto

lemma utf8Encode_plain:
  "\<not> isHighSurrogate u \<Longrightarrow> \<not> isLowSurrogate u \<Longrightarrow>
   utf8Encode (u # rest) = utf8CodePoint (unat u) @ utf8Encode rest"
  by (cases rest) simp_all

lemma ucast_small: "(u :: jschar) < 0x80 \<Longrightarrow> (ucast (ucast u :: byte) :: jschar) = u"
proof -
  assume "u < 0x80"
  then have u: "unat u < 128" by (simp add: word_less_nat_alt)
  define b :: byte where "b = of_nat (unat u)"
  have "unat b = unat u"
    unfolding b_def by (rule of_nat_inverse [OF refl]) (use u in simp)
  then have "unat (ucast b :: jschar) = unat u"
    by (simp only: unat_ucast_byte)
  then have "(ucast b :: jschar) = u" by (simp only: word_unat_eq_iff)
  moreover have "b = ucast u" unfolding b_def by simp
  ultimately show ?thesis by simp
qed

lemma utf8Encode_unreserved:
  assumes "isUnreserved u"
  shows "map ucast (utf8Encode (u # rest)) = u # map ucast (utf8Encode rest)"
proof -
  have s: "u < 0x80" using unreserved_small [OF assms] by simp
  then have "unat u < 0x80" by (simp add: word_less_nat_alt)
  then show ?thesis
    using small_not_surrogate [OF s]
    by (simp add: utf8Encode_plain utf8CodePoint_small ucast_small [OF s])
qed

lemma surrogates_disjoint: "isLowSurrogate u \<Longrightarrow> \<not> isHighSurrogate u"
  unfolding isHighSurrogate_def isLowSurrogate_def word_le_nat_alt by simp

lemma isWellFormed_plain:
  "\<not> isHighSurrogate u \<Longrightarrow> \<not> isLowSurrogate u \<Longrightarrow> isWellFormed (u # rest) = isWellFormed rest"
  by (cases rest) simp_all

lemma encodeURIComponent_error: "encodeURIComponent s = Inl e \<Longrightarrow> e = URIError"
  by (induction s arbitrary: e rule: encodeURIComponent.induct)
     (auto split: if_splits sum.splits list.splits)

lemma encodeURIComponent_wellFormed:
  "(\<exists>r. encodeURIComponent s = Inr r) = isWellFormed s"
proof (induction s rule: encodeURIComponent.induct)
  case 1
  then show ?case by simp
next
  case (2 u rest)
  show ?case
  proof (cases "isUnreserved u")
    case True
    then have "u < 0x80" using unreserved_small by simp
    then have p: "\<not> isHighSurrogate u" "\<not> isLowSurrogate u"
      using small_not_surrogate by simp_all
    show ?thesis
      using True 2(1) [OF True] by (auto simp: isWellFormed_plain [OF p] split: sum.splits)
  next
    case False
    show ?thesis
    proof (cases "isLowSurrogate u")
      case True
      with False show ?thesis
        using surrogates_disjoint [OF True] by (cases rest) simp_all
    next
      case low: False
      show ?thesis
      proof (cases "isHighSurrogate u")
        case True
        show ?thesis
        proof (cases rest)
          case Nil
          with False low True show ?thesis by simp
        next
          case (Cons v rest')
          show ?thesis
          proof (cases "isLowSurrogate v")
            case v: True
            with False low True Cons 2(2) [OF False low True Cons v] show ?thesis
              by (auto split: sum.splits)
          next
            case v: False
            with False low True Cons show ?thesis by simp
          qed
        qed
      next
        case high: False
        with False low 2(3) [OF False low high] show ?thesis
          by (auto simp: isWellFormed_plain [OF high low] split: sum.splits)
      qed
    qed
  qed
qed

lemma unescape_encodeURIComponent:
  "encodeURIComponent s = Inr r \<Longrightarrow> unescape r = map ucast (utf8Encode s)"
proof (induction s arbitrary: r rule: encodeURIComponent.induct)
  case 1
  then show ?case by simp
next
  case (2 u rest)
  show ?case
  proof (cases "isUnreserved u")
    case True
    then obtain r' where r': "encodeURIComponent rest = Inr r'" and r: "r = u # r'"
      using 2(4) by (auto split: sum.splits)
    have "u \<noteq> 37" using unreserved_small [OF True] by simp
    then have "unescape (u # r') = u # unescape r'" by simp
    with 2(1) [OF True r'] show ?thesis
      by (simp add: r utf8Encode_unreserved [OF True])
  next
    case False
    show ?thesis
    proof (cases "isLowSurrogate u")
      case True
      with False 2(4) show ?thesis by simp
    next
      case low: False
      show ?thesis
      proof (cases "isHighSurrogate u")
        case True
        then obtain v rest' where c: "rest = v # rest'" and v: "isLowSurrogate v"
          using False low 2(4) by (auto split: list.splits if_splits)
        obtain r' where r': "encodeURIComponent rest' = Inr r'"
          and r: "r = percentEncode (utf8CodePoint (codePointOfPair u v)) @ r'"
          using False low True c v 2(4) by (auto split: sum.splits)
        show ?thesis
          using 2(2) [OF False low True c v r'] True v
          by (simp add: r c unescape_percentEncode)
      next
        case high: False
        obtain r' where r': "encodeURIComponent rest = Inr r'"
          and r: "r = percentEncode (utf8CodePoint (unat u)) @ r'"
          using False low high 2(4) by (auto split: sum.splits)
        show ?thesis
          using 2(3) [OF False low high r']
          by (simp add: r unescape_percentEncode utf8Encode_plain [OF high low])
      qed
    qed
  qed
qed

lemma fallbackId_eq:
  "fallbackId s =
     (if isWellFormed s then Inr (shortAlnum (base64 (utf8Encode s))) else Inl URIError)"
proof (cases "isWellFormed s")
  case True
  then obtain r where r: "encodeURIComponent s = Inr r"
    using encodeURIComponent_wellFormed [of s] by blast
  have "btoa (unescape r) = Inr (base64 (utf8Encode s))"
    by (simp only: unescape_encodeURIComponent [OF r] btoa_latin1)
  with True r show ?thesis by (simp add: fallbackId_def)
next
  case False
  then obtain e where e: "encodeURIComponent s = Inl e"
    using encodeURIComponent_wellFormed [of s] by (cases "encodeURIComponent s") auto
  then have "e = URIError" by (rule encodeURIComponent_error)
  with False e show ?thesis by (simp add: fallbackId_def)
qed

text \<open>
  The id of a post, by cases: the \<open>try\<close> block gives it when the bytes are no more than
  the engine accepts, the \<open>catch\<close> block gives the same when the id source is well formed,
  and otherwise the \<open>catch\<close> block throws.
\<close>

lemma generateId_idSource:
  "generateId maxArgs now random (idSource a c d) =
     (if length (utf8Encode (idSource a c d)) \<le> maxArgs \<or> isWellFormed (idSource a c d)
      then Inr (shortAlnum (base64 (utf8Encode (idSource a c d))))
      else Inl URIError)"
  by (simp add: generateId_def primaryId_eq fallbackId_eq idSource_encoding_nonempty)

text \<open>Every code unit gives at least one byte, and a surrogate pair gives four.\<close>

lemma utf8CodePoint_length: "1 \<le> length (utf8CodePoint cp)"
  by (simp add: utf8CodePoint_def)

lemma utf8Encode_length: "length s \<le> length (utf8Encode s)"
proof (induction s rule: utf8Encode.induct)
  case 1
  then show ?case by simp
next
  case (2 u)
  then show ?case
    using utf8CodePoint_length [of "unat u"] utf8CodePoint_length [of "0xFFFD"] by simp
next
  case (3 u v rest)
  have p: "length (utf8CodePoint (codePointOfPair u v)) = 4"
    by (simp add: utf8CodePoint_def codePointOfPair_def)
  show ?case
    using 3 p utf8CodePoint_length [of "unat u"] utf8CodePoint_length [of "0xFFFD"]
    by (auto split: if_splits)
qed

lemma validId_shortAlnum: "shortAlnum s \<noteq> [] \<Longrightarrow> validId (shortAlnum s)"
  by (auto simp: validId_def shortAlnum_def list_all_iff dest: in_set_takeD)


subsection \<open>The year of a time value\<close>

lemma yearUp_next: "d < DayFromYear (yearUp d y + 1)"
proof (induction d y rule: yearUp.induct)
  case (1 d y)
  then show ?case by (subst yearUp.simps) simp
qed

lemma yearDown_begun: "DayFromYear (yearDown d y) \<le> d"
proof (induction d y rule: yearDown.induct)
  case (1 d y)
  then show ?case by (subst yearDown.simps) simp
qed

lemma yearDown_next: "d < DayFromYear (y + 1) \<Longrightarrow> d < DayFromYear (yearDown d y + 1)"
proof (induction d y rule: yearDown.induct)
  case (1 d y)
  show ?case
  proof (cases "d < DayFromYear y")
    case True
    with 1 have "d < DayFromYear (yearDown d (y - 1) + 1)" by simp
    with True show ?thesis by (subst yearDown.simps) simp
  next
    case False
    with 1 show ?thesis by (subst yearDown.simps) simp
  qed
qed

lemma YearFromTime_bounds:
  "DayFromYear (YearFromTime t) \<le> Day t \<and> Day t < DayFromYear (YearFromTime t + 1)"
  unfolding YearFromTime_def
  using yearDown_begun yearDown_next [OF yearUp_next] by blast

lemma DayWithinYear_bounds:
  "0 \<le> DayWithinYear t \<and>
   DayWithinYear t < (if InLeapYear (YearFromTime t) then 366 else 365)"
  using YearFromTime_bounds [of t] DayFromYear_next [of "YearFromTime t"]
  by (simp add: DayWithinYear_def split: if_splits)

lemma MonthFromTime_bounds: "0 \<le> MonthFromTime t \<and> MonthFromTime t \<le> 11"
  by (simp add: MonthFromTime_def Let_def)

lemma DateFromTime_bounds: "1 \<le> DateFromTime t \<and> DateFromTime t \<le> 31"
proof -
  define d where "d = DayWithinYear t"
  define leap where "leap = InLeapYear (YearFromTime t)"
  have b: "0 \<le> d" "d < (if leap then 366 else 365)"
    using DayWithinYear_bounds [of t] by (simp_all add: d_def leap_def)
  show ?thesis
  proof (cases leap)
    case True
    with b show ?thesis
      unfolding DateFromTime_def MonthFromTime_def monthStart_def Let_def
        d_def [symmetric] leap_def [symmetric]
      by (simp split: if_splits)
  next
    case False
    with b show ?thesis
      unfolding DateFromTime_def MonthFromTime_def monthStart_def Let_def
        d_def [symmetric] leap_def [symmetric]
      by (simp split: if_splits)
  qed
qed


subsection \<open>Digits\<close>

lemma isDigit_digit: "m < 10 \<Longrightarrow> isDigit (of_nat (48 + m))"
proof -
  assume m: "m < 10"
  have u: "unat (of_nat (48 + m) :: jschar) = 48 + m" by (intro unat_char) (use m in simp)
  show ?thesis unfolding isDigit_def word_le_nat_alt u using m by simp
qed

lemma natToString_digits: "list_all isDigit (natToString n)"
proof (induction n rule: natToString.induct)
  case (1 n)
  show ?case
  proof (cases "n < 10")
    case True
    then show ?thesis by (subst natToString.simps) (simp add: isDigit_digit del: of_nat_add)
  next
    case False
    have "isDigit (of_nat (48 + n mod 10))" by (rule isDigit_digit) simp
    with 1 False show ?thesis by (subst natToString.simps) (simp del: of_nat_add)
  qed
qed

lemma length_natToString_1: "n < 10 \<Longrightarrow> length (natToString n) = 1"
  by (subst natToString.simps) simp

lemma length_natToString_2: "10 \<le> n \<Longrightarrow> n < 100 \<Longrightarrow> length (natToString n) = 2"
  by (subst natToString.simps) (simp add: length_natToString_1)

lemma length_natToString_3: "100 \<le> n \<Longrightarrow> n < 1000 \<Longrightarrow> length (natToString n) = 3"
  by (subst natToString.simps) (simp add: length_natToString_2)

lemma length_natToString_4: "1000 \<le> n \<Longrightarrow> n < 10000 \<Longrightarrow> length (natToString n) = 4"
  by (subst natToString.simps) (simp add: length_natToString_3)

lemma pad2_shape:
  assumes "0 \<le> n" and "n \<le> 99"
  shows "length (pad2 n) = 2 \<and> list_all isDigit (pad2 n)"
proof (cases "n < 10")
  case True
  then have "length (natToString (nat n)) = 1"
    using assms by (intro length_natToString_1) simp
  then show ?thesis
    using assms natToString_digits [of "nat n"]
    by (simp add: pad2_def padStart_def intToString_def isDigit_def)
next
  case False
  then have "length (natToString (nat n)) = 2"
    using assms by (intro length_natToString_2) simp_all
  then show ?thesis
    using assms natToString_digits [of "nat n"]
    by (simp add: pad2_def padStart_def intToString_def)
qed

lemma year_shape:
  assumes "1000 \<le> y" and "y \<le> 9999"
  shows "length (intToString y) = 4 \<and> list_all isDigit (intToString y)"
proof -
  have "length (natToString (nat y)) = 4"
    using assms by (intro length_natToString_4) simp_all
  then show ?thesis
    using assms natToString_digits [of "nat y"] by (simp add: intToString_def)
qed

lemma isDisplayTimestamp_parts:
  assumes "length y = 4" "list_all isDigit y" "length mo = 2" "list_all isDigit mo"
    "length d = 2" "list_all isDigit d" "length h = 2" "list_all isDigit h"
    "length mi = 2" "list_all isDigit mi" "length s = 2" "list_all isDigit s"
  shows "isDisplayTimestamp (y @ [47] @ mo @ [47] @ d @ [32] @ h @ [58] @ mi @ [58] @ s)"
  using assms by (simp add: isDisplayTimestamp_def nth_append)

lemma formatTimestamp_shape:
  assumes "1000 \<le> YearFromTime (LocalTime tza t)" and "YearFromTime (LocalTime tza t) \<le> 9999"
  shows "isDisplayTimestamp (formatTimestamp tza (Some t))"
proof -
  let ?lt = "LocalTime tza t"
  have y: "length (intToString (YearFromTime ?lt)) = 4 \<and> list_all isDigit (intToString (YearFromTime ?lt))"
    using assms by (rule year_shape)
  have mo: "length (pad2 (MonthFromTime ?lt + 1)) = 2 \<and> list_all isDigit (pad2 (MonthFromTime ?lt + 1))"
    using MonthFromTime_bounds [of ?lt] by (intro pad2_shape) simp_all
  have d: "length (pad2 (DateFromTime ?lt)) = 2 \<and> list_all isDigit (pad2 (DateFromTime ?lt))"
    using DateFromTime_bounds [of ?lt] by (intro pad2_shape) simp_all
  have h: "length (pad2 (HourFromTime ?lt)) = 2 \<and> list_all isDigit (pad2 (HourFromTime ?lt))"
    by (intro pad2_shape) (simp_all add: HourFromTime_def)
  have mi: "length (pad2 (MinFromTime ?lt)) = 2 \<and> list_all isDigit (pad2 (MinFromTime ?lt))"
    by (intro pad2_shape) (simp_all add: MinFromTime_def)
  have s: "length (pad2 (SecFromTime ?lt)) = 2 \<and> list_all isDigit (pad2 (SecFromTime ?lt))"
    by (intro pad2_shape) (simp_all add: SecFromTime_def)
  have a: "ascii ''/'' = [47]" "ascii '' '' = [32]" "ascii '':'' = [58]"
    by (simp_all add: ascii_def)
  show ?thesis
    unfolding formatTimestamp_def Let_def option.case a
    using y mo d h mi s by (intro isDisplayTimestamp_parts) simp_all
qed

text \<open>
  The numbers that the display timestamp shows are the year, the month counted from 1,
  the day and the hours, minutes and seconds of the instant in local time.
\<close>

lemma decimalValue_zero: "decimalValue (48 # s) = decimalValue s"
  by (simp add: decimalValue_def digitValue_def)

lemma decimalValue_intToString: "0 \<le> n \<Longrightarrow> decimalValue (intToString n) = n"
  by (simp add: intToString_def decimalValue_natToString)

lemma decimalValue_pad2: "0 \<le> n \<Longrightarrow> decimalValue (pad2 n) = n"
proof -
  assume n: "0 \<le> n"
  have "decimalValue (replicate k 48 @ s) = decimalValue s" for k s
    by (induction k) (simp_all add: decimalValue_zero)
  then show ?thesis
    using n by (simp add: pad2_def padStart_def decimalValue_intToString)
qed

lemma displayFields_parts:
  assumes "length y = 4" "length mo = 2" "length d = 2" "length h = 2" "length mi = 2"
    "length s = 2"
  shows "displayFields (y @ [47] @ mo @ [47] @ d @ [32] @ h @ [58] @ mi @ [58] @ s)
           = map decimalValue [y, mo, d, h, mi, s]"
  using assms by (simp add: displayFields_def)

lemma formatTimestamp_fields:
  assumes "1000 \<le> YearFromTime (LocalTime tza t)" and "YearFromTime (LocalTime tza t) \<le> 9999"
  shows "displayFields (formatTimestamp tza (Some t))
           = [YearFromTime (LocalTime tza t), MonthFromTime (LocalTime tza t) + 1,
              DateFromTime (LocalTime tza t), HourFromTime (LocalTime tza t),
              MinFromTime (LocalTime tza t), SecFromTime (LocalTime tza t)]"
proof -
  let ?lt = "LocalTime tza t"
  have y: "length (intToString (YearFromTime ?lt)) = 4"
    using year_shape [OF assms] by simp
  have mo: "length (pad2 (MonthFromTime ?lt + 1)) = 2"
    using MonthFromTime_bounds [of ?lt] pad2_shape [of "MonthFromTime ?lt + 1"] by simp
  have d: "length (pad2 (DateFromTime ?lt)) = 2"
    using DateFromTime_bounds [of ?lt] pad2_shape [of "DateFromTime ?lt"] by simp
  have h: "length (pad2 (HourFromTime ?lt)) = 2"
    using pad2_shape [of "HourFromTime ?lt"] by (simp add: HourFromTime_def)
  have mi: "length (pad2 (MinFromTime ?lt)) = 2"
    using pad2_shape [of "MinFromTime ?lt"] by (simp add: MinFromTime_def)
  have s: "length (pad2 (SecFromTime ?lt)) = 2"
    using pad2_shape [of "SecFromTime ?lt"] by (simp add: SecFromTime_def)
  have a: "ascii ''/'' = [47]" "ascii '' '' = [32]" "ascii '':'' = [58]"
    by (simp_all add: ascii_def)
  have v: "decimalValue (intToString (YearFromTime ?lt)) = YearFromTime ?lt"
    "decimalValue (pad2 (MonthFromTime ?lt + 1)) = MonthFromTime ?lt + 1"
    "decimalValue (pad2 (DateFromTime ?lt)) = DateFromTime ?lt"
    "decimalValue (pad2 (HourFromTime ?lt)) = HourFromTime ?lt"
    "decimalValue (pad2 (MinFromTime ?lt)) = MinFromTime ?lt"
    "decimalValue (pad2 (SecFromTime ?lt)) = SecFromTime ?lt"
    using assms(1) MonthFromTime_bounds [of ?lt] DateFromTime_bounds [of ?lt]
    by (simp_all add: decimalValue_intToString decimalValue_pad2 HourFromTime_def
        MinFromTime_def SecFromTime_def)
  show ?thesis
    unfolding formatTimestamp_def Let_def option.case a
    by (simp only: displayFields_parts [OF y mo d h mi s] list.map v)
qed

text \<open>
  These six numbers and the milliseconds give the local time back: the day of the month
  counts on from the first day of the month in the year, and the time within the day is
  the hours, minutes, seconds and milliseconds.
\<close>

lemma time_within_day:
  "Day t * 86400000 + HourFromTime t * 3600000 + MinFromTime t * 60000
     + SecFromTime t * 1000 + msFromTime t = t"
proof -
  have s: "t div 60000 = t div 1000 div 60" "t div 3600000 = t div 1000 div 60 div 60"
    "t div 86400000 = t div 1000 div 60 div 60 div 24"
    by (simp_all add: div_mult2_eq [symmetric])
  define q where "q = t div 1000"
  define q2 where "q2 = q div 60"
  define q3 where "q3 = q2 div 60"
  define days where "days = q3 div 24"
  define h where "h = q3 mod 24"
  define mi where "mi = q2 mod 60"
  define sec where "sec = q mod 60"
  define ms where "ms = t mod 1000"
  have e: "t = 1000 * q + ms" "q = 60 * q2 + sec" "q2 = 60 * q3 + mi" "q3 = 24 * days + h"
    by (simp_all add: q_def q2_def q3_def days_def h_def mi_def sec_def ms_def)
  have "days * 86400000 + h * 3600000 + mi * 60000 + sec * 1000 + ms = t"
    using e by linarith
  then show ?thesis
    unfolding Day_def HourFromTime_def MinFromTime_def SecFromTime_def msFromTime_def s
      days_def h_def mi_def sec_def ms_def q3_def q2_def q_def .
qed

lemma local_fields_instant:
  "(DayFromYear (YearFromTime t)
      + monthStart (InLeapYear (YearFromTime t)) (MonthFromTime t) + DateFromTime t - 1)
     * 86400000
   + HourFromTime t * 3600000 + MinFromTime t * 60000 + SecFromTime t * 1000 + msFromTime t
   = t"
proof -
  have "DayFromYear (YearFromTime t)
      + monthStart (InLeapYear (YearFromTime t)) (MonthFromTime t) + DateFromTime t - 1
    = Day t"
    by (simp add: DateFromTime_def DayWithinYear_def)
  then show ?thesis by (simp only: time_within_day)
qed

subsection \<open>Relative-time tokens\<close>

lemma unit_not_digit: "isUnit u \<Longrightarrow> \<not> isDigit u"
  by (auto simp: isUnit_def isDigit_def)

lemma matchRelative_token:
  "list_all isDigit ds \<Longrightarrow> isUnit u \<Longrightarrow> run @ ds \<noteq> [] \<Longrightarrow>
   matchRelative run (ds @ [u]) = Some (run @ ds, u)"
proof (induction ds arbitrary: run)
  case Nil
  then show ?case by (simp add: unit_not_digit)
next
  case (Cons c ds)
  then show ?case by simp
qed

lemma parseRelativeTime_token_eq:
  assumes "ds \<noteq> []" and "list_all isDigit ds" and "isUnit u"
  shows "parseRelativeTime now (ds @ [u]) = TimeClip (now - decimalValue ds * unitMilliseconds u)"
proof -
  have "matchRelative [] (ds @ [u]) = Some (ds, u)"
    using matchRelative_token [of ds u "[]"] assms by simp
  then show ?thesis
    using assms(3)
    by (auto simp: parseRelativeTime_def unitMilliseconds_def isUnit_def Let_def mult.commute)
qed

lemma matchRelative_none:
  "\<not> (\<exists>c\<in>set s. isDigit c) \<Longrightarrow> matchRelative [] s = None"
  by (induction s) auto


subsection \<open>Evaluation at concrete inputs\<close>

lemma replicate_small:
  "replicate 1 c = [c]" "replicate 2 c = [c, c]" "replicate 3 c = [c, c, c]"
  "replicate 4 c = [c, c, c, c]" "replicate 5 c = [c, c, c, c, c]"
  by (simp_all add: eval_nat_numeral)

lemmas calendar_eval =
  YearFromTime_def Day_def yearUp.simps yearDown.simps DayFromYear_def DayWithinYear_def
  MonthFromTime_def DateFromTime_def HourFromTime_def MinFromTime_def SecFromTime_def
  msFromTime_def InLeapYear_def monthStart_def LocalTime_def utc_def

lemmas string_eval =
  ascii_def natToString.simps intToString_def numberToString_def padStart_def pad2_def
  isDigit_def decimalValue_def digitValue_def replicate_small

lemmas id_eval =
  idSource_def utf8CodePoint_def isHighSurrogate_def isLowSurrogate_def codePointOfPair_def
  base64Char_def shortAlnum_def isAlnum_def

lemma two_hours_ago: "parseRelativeTime 1700000000000 (ascii ''2h'') = Some 1699992800000"
  by (simp add: parseRelativeTime_def isUnit_def TimeClip_def string_eval)

lemma two_hours_ago_display:
  "formatTimestamp utc (Some 1699992800000) = ascii ''2023/11/14 20:13:20''"
  by (simp add: formatTimestamp_def calendar_eval string_eval)

lemma two_hours_ago_local:
  "formatTimestamp utcPlus8 (Some 1699992800000) = ascii ''2023/11/15 04:13:20''"
  by (simp add: formatTimestamp_def calendar_eval utcPlus8_def string_eval)

lemma two_hours_ago_iso:
  "toISOString (Some 1699992800000) = Inr (ascii ''2023-11-14T20:13:20.000Z'')"
  by (simp add: toISOString_def calendar_eval string_eval)

lemma relativeElement_time:
  "resolvePublishTime parse 1700000000000 (timeElement relativeElement) = Some 1699992800000"
  by (simp add: resolvePublishTime_def relativeElement_def two_hours_ago)

lemma relativeElement_id:
  "shortAlnum (base64 (utf8Encode
      (idSource (ascii ''alice'') [0x4E2D, 0x6587] (Some 1699992800000))))
   = ascii ''YWxpY2XkuK3mlocx''"
  by (simp add: id_eval string_eval)

lemma relativeElement_source:
  "isWellFormed (idSource (ascii ''alice'') [0x4E2D, 0x6587] (Some 1699992800000))"
  "length (utf8Encode (idSource (ascii ''alice'') [0x4E2D, 0x6587] (Some 1699992800000))) = 24"
  by (simp_all add: id_eval string_eval)

lemma garbledElement_source:
  "isWellFormed (idSource (ascii ''alice'') [0x4E2D, 0x6587] None)"
  by (simp add: id_eval string_eval)

lemma relativeElement_extracted:
  "extractDetails parse utc exampleReadings relativeElement = Inr relativePost"
proof -
  have f: "userName relativeElement = Some (ascii ''alice'')"
    "tweetText relativeElement = Some [0x4E2D, 0x6587]"
    by (simp_all add: relativeElement_def)
  have n: "ascii ''alice'' \<noteq> []" by (simp add: ascii_def)
  show ?thesis
    unfolding extractDetails_def Let_def
    by (simp add: f n orDefault_def exampleReadings_def relativeElement_time
        generateId_idSource relativeElement_source relativeElement_id two_hours_ago_iso
        two_hours_ago_display relativePost_def)
qed

subsection \<open>The claims on the id\<close>

text \<open>
  Claim C6, as amended. The id computed from an author, a content and a publish time
  does not depend on the readings of the clock and of the random generator. When the
  UTF-8 bytes of the id source are no more than the arguments that the engine accepts in
  one call, or the id source is well formed, the computation does not throw, whatever
  code units the author and the content hold, and the id is the first 16 letters and
  digits of the Base64 encoding of those bytes. When the bytes are more than the engine
  accepts and the id source is not well formed, \<open>String.fromCharCode\<close> throws a
  \<open>RangeError\<close>, \<open>encodeURIComponent\<close> in the \<open>catch\<close> branch throws a \<open>URIError\<close> and there is
  no id. Any two runs that give an id give the same one, also in engines that accept
  different numbers of arguments. The substitute for an empty id is never reached.
\<close>

theorem generateId_deterministic:
  "generateId maxArgs now random (idSource a c d)
     = generateId maxArgs now' random' (idSource a c d) \<and>
   (length (utf8Encode (idSource a c d)) \<le> maxArgs \<or> isWellFormed (idSource a c d)
      \<longrightarrow> generateId maxArgs now random (idSource a c d)
            = Inr (shortAlnum (base64 (utf8Encode (idSource a c d))))) \<and>
   (maxArgs < length (utf8Encode (idSource a c d)) \<and> \<not> isWellFormed (idSource a c d)
      \<longrightarrow> generateId maxArgs now random (idSource a c d) = Inl URIError) \<and>
   (generateId maxArgs now random (idSource a c d) = Inr i
      \<and> generateId maxArgs' now' random' (idSource a c d) = Inr j
      \<longrightarrow> i = j)"
proof (intro conjI impI)
  show "generateId maxArgs now random (idSource a c d)
     = generateId maxArgs now' random' (idSource a c d)"
    by (simp only: generateId_idSource)
next
  assume "length (utf8Encode (idSource a c d)) \<le> maxArgs \<or> isWellFormed (idSource a c d)"
  then show "generateId maxArgs now random (idSource a c d)
            = Inr (shortAlnum (base64 (utf8Encode (idSource a c d))))"
    by (simp only: generateId_idSource if_True)
next
  assume "maxArgs < length (utf8Encode (idSource a c d)) \<and> \<not> isWellFormed (idSource a c d)"
  then show "generateId maxArgs now random (idSource a c d) = Inl URIError"
    by (simp add: generateId_idSource)
next
  assume "generateId maxArgs now random (idSource a c d) = Inr i
      \<and> generateId maxArgs' now' random' (idSource a c d) = Inr j"
  then show "i = j"
    by (auto simp: generateId_idSource split: if_splits)
qed

theorem generateId_deterministic_witness:
  "length (utf8Encode (idSource (ascii ''alice'') [0x4E2D, 0x6587] (Some 1699992800000))) = 24 \<and>
   isWellFormed (idSource (ascii ''alice'') [0x4E2D, 0x6587] (Some 1699992800000)) \<and>
   generateId 65536 1700000000001 (ascii ''0.4fzyo82mvyr'')
      (idSource (ascii ''alice'') [0x4E2D, 0x6587] (Some 1699992800000))
     = generateId 65536 1700000099999 (ascii ''0.k2j4h5g6f7d'')
         (idSource (ascii ''alice'') [0x4E2D, 0x6587] (Some 1699992800000)) \<and>
   generateId 65536 1700000000001 (ascii ''0.4fzyo82mvyr'')
      (idSource (ascii ''alice'') [0x4E2D, 0x6587] (Some 1699992800000))
     = Inr (ascii ''YWxpY2XkuK3mlocx'') \<and>
   generateId 8 1700000000001 (ascii ''0.4fzyo82mvyr'')
      (idSource (ascii ''alice'') [0x4E2D, 0x6587] (Some 1699992800000))
     = Inr (ascii ''YWxpY2XkuK3mlocx'') \<and>
   length (utf8Encode (idSource (ascii ''alice'') [0xD83D] (Some 1699992800000))) = 21 \<and>
   isWellFormed (idSource (ascii ''alice'') [0xD83D] (Some 1699992800000)) = False \<and>
   generateId 8 1700000000001 (ascii ''0.4fzyo82mvyr'')
      (idSource (ascii ''alice'') [0xD83D] (Some 1699992800000))
     = Inl URIError"
proof -
  let ?s = "idSource (ascii ''alice'') [0x4E2D, 0x6587] (Some 1699992800000)"
  note t = generateId_deterministic [where maxArgs = 65536 and now = 1700000000001
      and random = "ascii ''0.4fzyo82mvyr''" and a = "ascii ''alice''"
      and c = "[0x4E2D, 0x6587]" and d = "Some 1699992800000" and now' = 1700000099999
      and random' = "ascii ''0.k2j4h5g6f7d''"]
  note t' = generateId_deterministic [where maxArgs = 8 and now = 1700000000001
      and random = "ascii ''0.4fzyo82mvyr''" and a = "ascii ''alice''"
      and c = "[0x4E2D, 0x6587]" and d = "Some 1699992800000"]
  have l: "length (utf8Encode ?s) = 24" and w: "isWellFormed ?s"
    by (rule relativeElement_source)+
  have le: "length (utf8Encode ?s) \<le> 65536" by (simp only: l)
  have a: "generateId 65536 1700000000001 (ascii ''0.4fzyo82mvyr'') ?s
     = generateId 65536 1700000099999 (ascii ''0.k2j4h5g6f7d'') ?s"
    using t by (rule conjunct1)
  have "generateId 65536 1700000000001 (ascii ''0.4fzyo82mvyr'') ?s
     = Inr (shortAlnum (base64 (utf8Encode ?s)))"
    using t le by blast
  then have b: "generateId 65536 1700000000001 (ascii ''0.4fzyo82mvyr'') ?s
     = Inr (ascii ''YWxpY2XkuK3mlocx'')"
    by (simp only: relativeElement_id)
  have "generateId 8 1700000000001 (ascii ''0.4fzyo82mvyr'') ?s
     = Inr (shortAlnum (base64 (utf8Encode ?s)))"
    using t' w by blast
  then have c: "generateId 8 1700000000001 (ascii ''0.4fzyo82mvyr'') ?s
     = Inr (ascii ''YWxpY2XkuK3mlocx'')"
    by (simp only: relativeElement_id)
  let ?u = "idSource (ascii ''alice'') [0xD83D] (Some 1699992800000)"
  note t'' = generateId_deterministic [where maxArgs = 8 and now = 1700000000001
      and random = "ascii ''0.4fzyo82mvyr''" and a = "ascii ''alice''"
      and c = "[0xD83D]" and d = "Some 1699992800000"]
  have l': "length (utf8Encode ?u) = 21" and w': "isWellFormed ?u = False"
    by (simp_all add: id_eval string_eval)
  have "8 < length (utf8Encode ?u) \<and> \<not> isWellFormed ?u"
    by (simp only: l' w') simp
  with t'' have e: "generateId 8 1700000000001 (ascii ''0.4fzyo82mvyr'') ?u = Inl URIError"
    by blast
  from l w a b c l' w' e show ?thesis by (intro conjI)
qed

text \<open>
  Claim C6 as stated fails in that the computation can throw. Whatever number of
  arguments the engine accepts, the id source of an author of that many letters \<open>a\<close> and a
  content that is a high surrogate standing alone has more bytes than that and is not
  well formed: the \<open>try\<close> block throws and the \<open>catch\<close> block throws a \<open>URIError\<close>.
\<close>

lemma lone_surrogate_source:
  "\<not> isWellFormed (idSource (replicate n 97) [0xD83D] (Some 1699992800000))"
proof (induction n)
  case 0
  then show ?case
    by (simp add: idSource_def isHighSurrogate_def isLowSurrogate_def string_eval)
next
  case (Suc n)
  have "\<not> isHighSurrogate 97" "\<not> isLowSurrogate 97"
    by (simp_all add: isHighSurrogate_def isLowSurrogate_def)
  then have "isWellFormed (97 # idSource (replicate n 97) [0xD83D] (Some 1699992800000))
      = isWellFormed (idSource (replicate n 97) [0xD83D] (Some 1699992800000))"
    by (rule isWellFormed_plain)
  with Suc show ?case by (simp add: idSource_def)
qed

lemma long_source:
  "n < length (utf8Encode (idSource (replicate n 97) c (Some 1699992800000)))"
proof -
  have "n < length (idSource (replicate n 97) c (Some 1699992800000))"
    by (simp add: idSource_def string_eval)
  then show ?thesis
    using utf8Encode_length [of "idSource (replicate n 97) c (Some 1699992800000)"]
    by simp
qed

theorem generateId_raises_counterexample:
  "\<forall>maxArgs.
     generateId maxArgs 1700000000001 (ascii ''0.4fzyo82mvyr'')
       (idSource (replicate maxArgs 97) [0xD83D] (Some 1699992800000)) = Inl URIError"
proof
  fix maxArgs
  have "\<not> length (utf8Encode (idSource (replicate maxArgs 97) [0xD83D] (Some 1699992800000)))
          \<le> maxArgs"
    using long_source [of maxArgs "[0xD83D]"] by simp
  then show "generateId maxArgs 1700000000001 (ascii ''0.4fzyo82mvyr'')
       (idSource (replicate maxArgs 97) [0xD83D] (Some 1699992800000)) = Inl URIError"
    by (simp add: generateId_idSource lone_surrogate_source)
qed

lemma extractDetails_id:
  "extractDetails parse tza readings el = Inr post \<Longrightarrow> validId (id_post post)"
proof -
  assume e: "extractDetails parse tza readings el = Inr post"
  let ?a = "orDefault (userName el) (ascii ''Unknown'')"
  let ?c = "orDefault (tweetText el) []"
  let ?d = "resolvePublishTime parse (newDate readings) (timeElement el)"
  have "id_post post = shortAlnum (base64 (utf8Encode (idSource ?a ?c ?d)))"
    using e unfolding extractDetails_def Let_def
    by (auto simp: generateId_idSource split: sum.splits if_splits)
  then show ?thesis
    using idSource_encoding_nonempty [of ?a ?c ?d] by (simp add: validId_shortAlnum)
qed

text \<open>
  Claim C10. The id of every post that \<open>extractTweets\<close> returns is not empty, is at most
  16 characters long and holds letters and digits only, in the \<open>try\<close> block as in the
  \<open>catch\<close> block. (An empty id would be replaced by \<open>emptyIdSubstitute\<close>; the encoding
  never yields one.)
\<close>

theorem extracted_id_valid:
  "(extractDetails parse tza readings el = Inr post \<longrightarrow> validId (id_post post)) \<and>
   list_all (\<lambda>p. validId (id_post p)) (extractTweets parse tza items)"
proof
  show "extractDetails parse tza readings el = Inr post \<longrightarrow> validId (id_post post)"
    using extractDetails_id by blast
  show "list_all (\<lambda>p. validId (id_post p)) (extractTweets parse tza items)"
  proof (induction items)
    case Nil
    then show ?case by simp
  next
    case (Cons item items)
    obtain r el' where i: "item = (r, el')" by (cases item)
    show ?case
      using Cons extractDetails_id [of parse tza r el']
      by (simp add: i split: sum.splits)
  qed
qed

theorem extracted_id_valid_witness:
  "extractDetails isoDateParse utc exampleReadings relativeElement = Inr relativePost \<and>
   validId (id_post relativePost) \<and>
   id_post relativePost = ascii ''YWxpY2XkuK3mlocx''"
proof -
  have e: "extractDetails isoDateParse utc exampleReadings relativeElement = Inr relativePost"
    by (rule relativeElement_extracted)
  have "validId (id_post relativePost)"
    using extracted_id_valid [of isoDateParse utc exampleReadings relativeElement relativePost]
      e by blast
  with e show ?thesis by (simp add: relativePost_def)
qed

subsection \<open>The claims on the publish time\<close>

text \<open>
  Claim C7, as amended. For a token of digits followed by one of \<open>s\<close>, \<open>m\<close>, \<open>h\<close>, \<open>d\<close>,
  evaluated at the instant \<open>now\<close>: when \<open>now\<close> minus the duration is a valid time value,
  \<open>parseRelativeTime\<close> returns it, and it is the publish time of an element whose \<open>time\<close>
  element has no \<open>datetime\<close> attribute and shows the token. When in addition the year
  of that instant in local time has four digits, the display timestamp has the form
  \<open>YYYY/MM/DD HH:MM:SS\<close>, every field at its full width, and the six numbers it shows
  are the year, the month (from 1), the day, the hours, the minutes and the seconds of
  that instant in the local time of the host.
\<close>

theorem relative_time_normalized:
  "digits \<noteq> [] \<Longrightarrow> list_all isDigit digits \<Longrightarrow> isUnit unit \<Longrightarrow>
   TimeClip (relativeInstant now digits unit) \<noteq> None \<Longrightarrow>
   parseRelativeTime now (digits @ [unit]) = Some (relativeInstant now digits unit) \<and>
   resolvePublishTime parse now (Some \<lparr>datetime = None, timeText = digits @ [unit]\<rparr>)
     = Some (relativeInstant now digits unit) \<and>
   (1000 \<le> YearFromTime (LocalTime tza (relativeInstant now digits unit)) \<and>
    YearFromTime (LocalTime tza (relativeInstant now digits unit)) \<le> 9999
    \<longrightarrow> isDisplayTimestamp (formatTimestamp tza (parseRelativeTime now (digits @ [unit])))
      \<and> displayFields (formatTimestamp tza (parseRelativeTime now (digits @ [unit])))
          = [YearFromTime (LocalTime tza (relativeInstant now digits unit)),
             MonthFromTime (LocalTime tza (relativeInstant now digits unit)) + 1,
             DateFromTime (LocalTime tza (relativeInstant now digits unit)),
             HourFromTime (LocalTime tza (relativeInstant now digits unit)),
             MinFromTime (LocalTime tza (relativeInstant now digits unit)),
             SecFromTime (LocalTime tza (relativeInstant now digits unit))])"
proof -
  assume d: "digits \<noteq> []" "list_all isDigit digits" and u: "isUnit unit"
    and v: "TimeClip (relativeInstant now digits unit) \<noteq> None"
  have "parseRelativeTime now (digits @ [unit]) = TimeClip (relativeInstant now digits unit)"
    using parseRelativeTime_token_eq [OF d u] by (simp add: relativeInstant_def)
  moreover have "TimeClip (relativeInstant now digits unit) = Some (relativeInstant now digits unit)"
    using v by (simp add: TimeClip_def split: if_splits)
  ultimately have p: "parseRelativeTime now (digits @ [unit])
      = Some (relativeInstant now digits unit)" by simp
  have r: "resolvePublishTime parse now (Some \<lparr>datetime = None, timeText = digits @ [unit]\<rparr>)
     = Some (relativeInstant now digits unit)"
    by (simp add: resolvePublishTime_def p)
  show ?thesis
    unfolding p
    using r formatTimestamp_shape [of tza "relativeInstant now digits unit"]
      formatTimestamp_fields [of tza "relativeInstant now digits unit"]
    by blast
qed

theorem relative_time_normalized_witness:
  "ascii ''2'' \<noteq> [] \<and> list_all isDigit (ascii ''2'') \<and> isUnit 104 \<and>
   TimeClip (relativeInstant 1700000000000 (ascii ''2'') 104) \<noteq> None \<and>
   parseRelativeTime 1700000000000 (ascii ''2h'') = Some (1700000000000 - 2 * 3600000) \<and>
   YearFromTime (LocalTime utcPlus8 (relativeInstant 1700000000000 (ascii ''2'') 104)) = 2023 \<and>
   isDisplayTimestamp
     (formatTimestamp utcPlus8 (parseRelativeTime 1700000000000 (ascii ''2h''))) \<and>
   displayFields (formatTimestamp utcPlus8 (parseRelativeTime 1700000000000 (ascii ''2h'')))
     = [2023, 11, 15, 4, 13, 20] \<and>
   formatTimestamp utcPlus8 (parseRelativeTime 1700000000000 (ascii ''2h''))
     = ascii ''2023/11/15 04:13:20'' \<and>
   formatTimestamp utc (parseRelativeTime 1700000000000 (ascii ''2h''))
     = ascii ''2023/11/14 20:13:20''"
proof -
  have d: "ascii ''2'' \<noteq> []" "list_all isDigit (ascii ''2'')"
    by (simp_all add: string_eval)
  have u: "isUnit 104" by (simp add: isUnit_def)
  have i: "relativeInstant 1700000000000 (ascii ''2'') 104 = 1699992800000"
    by (simp add: relativeInstant_def unitMilliseconds_def string_eval)
  have v: "TimeClip (relativeInstant 1700000000000 (ascii ''2'') 104) \<noteq> None"
    by (simp add: i TimeClip_def)
  have l: "LocalTime utcPlus8 1699992800000 = 1700021600000"
    by (simp add: LocalTime_def utcPlus8_def)
  have y: "YearFromTime 1700021600000 = 2023" "MonthFromTime 1700021600000 = 10"
    "DateFromTime 1700021600000 = 15" "HourFromTime 1700021600000 = 4"
    "MinFromTime 1700021600000 = 13" "SecFromTime 1700021600000 = 20"
    by (simp_all add: calendar_eval)
  have t: "ascii ''2'' @ [104] = ascii ''2h''" by (simp add: ascii_def)
  note n = relative_time_normalized [OF d u v, of isoDateParse utcPlus8, unfolded t]
  have "1000 \<le> YearFromTime (LocalTime utcPlus8 (relativeInstant 1700000000000 (ascii ''2'') 104)) \<and>
    YearFromTime (LocalTime utcPlus8 (relativeInstant 1700000000000 (ascii ''2'') 104)) \<le> 9999"
    by (simp add: i l y)
  with n have "isDisplayTimestamp
      (formatTimestamp utcPlus8 (parseRelativeTime 1700000000000 (ascii ''2h'')))
    \<and> displayFields (formatTimestamp utcPlus8 (parseRelativeTime 1700000000000 (ascii ''2h'')))
          = [YearFromTime (LocalTime utcPlus8 (relativeInstant 1700000000000 (ascii ''2'') 104)),
             MonthFromTime (LocalTime utcPlus8 (relativeInstant 1700000000000 (ascii ''2'') 104)) + 1,
             DateFromTime (LocalTime utcPlus8 (relativeInstant 1700000000000 (ascii ''2'') 104)),
             HourFromTime (LocalTime utcPlus8 (relativeInstant 1700000000000 (ascii ''2'') 104)),
             MinFromTime (LocalTime utcPlus8 (relativeInstant 1700000000000 (ascii ''2'') 104)),
             SecFromTime (LocalTime utcPlus8 (relativeInstant 1700000000000 (ascii ''2'') 104))]"
    by blast
  then have f: "isDisplayTimestamp
      (formatTimestamp utcPlus8 (parseRelativeTime 1700000000000 (ascii ''2h'')))
    \<and> displayFields (formatTimestamp utcPlus8 (parseRelativeTime 1700000000000 (ascii ''2h'')))
          = [2023, 11, 15, 4, 13, 20]"
    by (simp add: i l y)
  have g: "formatTimestamp utcPlus8 (parseRelativeTime 1700000000000 (ascii ''2h''))
     = ascii ''2023/11/15 04:13:20''"
    by (simp add: two_hours_ago two_hours_ago_local)
  show ?thesis
    using d u v f g by (simp add: i l y two_hours_ago two_hours_ago_display)
qed

text \<open>
  Claim C7 as stated fails. A token whose duration leads out of the range of time
  values gives an Invalid Date, which \<open>extractTweets\<close> replaces by the epoch; and the year
  is written as it is, so that a year below 1000 gives a shorter timestamp.
\<close>

theorem relative_time_counterexample:
  "parseRelativeTime 1700000000000 (ascii ''100000000000000d'') = None \<and>
   resolvePublishTime isoDateParse 1700000000000
     (Some \<lparr>datetime = None, timeText = ascii ''100000000000000d''\<rparr>) = Some 0 \<and>
   parseRelativeTime 1700000000000 (ascii ''400000d'') = Some (1700000000000 - 400000 * 86400000) \<and>
   formatTimestamp utc (parseRelativeTime 1700000000000 (ascii ''400000d''))
     = ascii ''928/09/15 22:13:20'' \<and>
   \<not> isDisplayTimestamp (formatTimestamp utc (parseRelativeTime 1700000000000 (ascii ''400000d'')))"
proof -
  have a: "parseRelativeTime 1700000000000 (ascii ''100000000000000d'') = None"
    by (simp add: parseRelativeTime_def isUnit_def TimeClip_def string_eval)
  have b: "parseRelativeTime 1700000000000 (ascii ''400000d'') = Some (- 32860000000000)"
    by (simp add: parseRelativeTime_def isUnit_def TimeClip_def string_eval)
  have c: "formatTimestamp utc (Some (- 32860000000000)) = ascii ''928/09/15 22:13:20''"
    by (simp add: formatTimestamp_def calendar_eval string_eval)
  have d: "\<not> isDisplayTimestamp (ascii ''928/09/15 22:13:20'')"
    by (simp add: isDisplayTimestamp_def ascii_def)
  show ?thesis
    by (simp add: a b c d resolvePublishTime_def TimeClip_def)
qed

text \<open>
  Towards claim C8: an element without a \<open>time\<close> element, and one whose \<open>time\<close> element
  has no \<open>datetime\<close> attribute and a text in which the pattern finds nothing, get the
  current instant as their publish time.
\<close>

lemma resolvePublishTime_fallback:
  "resolvePublishTime parse now None = Some now"
  "datetime e = None \<or> datetime e = Some [] \<Longrightarrow> matchRelative [] (timeText e) = None \<Longrightarrow>
   resolvePublishTime parse now (Some e) = Some now"
  by (auto simp: resolvePublishTime_def parseRelativeTime_def)

text \<open>
  Claim C8 fails on the code. A \<open>datetime\<close> attribute that is not a date is handed to
  \<open>new Date\<close> and the Invalid Date is kept: the branch of the attribute has no check for
  it, unlike the branch of the relative time. \<open>toISOString\<close> then throws a \<open>RangeError\<close>,
  and the \<open>catch\<close> of the loop drops the tweet.
\<close>

theorem unparseable_datetime_dropped:
  "resolvePublishTime isoDateParse (newDate exampleReadings) (timeElement garbledElement) = None \<and>
   extractDetails isoDateParse utc exampleReadings garbledElement = Inl RangeError \<and>
   extractTweets isoDateParse utc [(exampleReadings, garbledElement)] = [] \<and>
   resolvePublishTime isoDateParse (newDate exampleReadings) (timeElement timelessElement)
     = Some (newDate exampleReadings)"
proof -
  have n: "isoDateParse (ascii ''not-a-date'') = None"
    by (simp add: isoDateParse_def ascii_def)
  have g: "ascii ''not-a-date'' \<noteq> []" by (simp add: ascii_def)
  have r: "resolvePublishTime isoDateParse (newDate exampleReadings) (timeElement garbledElement)
             = None"
    by (simp add: resolvePublishTime_def garbledElement_def n g)
  have f: "userName garbledElement = Some (ascii ''alice'')"
    "tweetText garbledElement = Some [0x4E2D, 0x6587]"
    by (simp_all add: garbledElement_def)
  have m: "ascii ''alice'' \<noteq> []" by (simp add: ascii_def)
  have e: "extractDetails isoDateParse utc exampleReadings garbledElement = Inl RangeError"
    unfolding extractDetails_def Let_def
    by (simp add: r f m orDefault_def generateId_idSource garbledElement_source
        toISOString_def)
  have a: "\<not> adDetected garbledElement" by (simp add: garbledElement_def)
  show ?thesis
    by (simp add: r e a timelessElement_def resolvePublishTime_fallback)
qed

section \<open>Verification of the periodic refresh\<close>

text \<open>
  Claim C9. When the timer fires while \<open>twitterTabId\<close> is unset, the callback clears the
  interval that is running, leaves \<open>refreshIntervalId\<close> unset and every other variable
  as it is, and asks the host for nothing else: no reload, no scrape request and no new
  timer.
\<close>

theorem intervalCallback_no_tab:
  "twitterTabId st = None \<Longrightarrow>
   fst (intervalCallback st) = st\<lparr>refreshIntervalId := None\<rparr> \<and>
   snd (intervalCallback st) = timerOf st \<and>
   filter isReload (snd (intervalCallback st)) = [] \<and>
   filter isScrapeRequest (snd (intervalCallback st)) = [] \<and>
   filter isSetInterval (snd (intervalCallback st)) = []"
  by (cases "refreshIntervalId st")
     (simp_all add: intervalCallback_def stopPeriodicRefresh_def timerOf_def)

theorem intervalCallback_no_tab_witness:
  "twitterTabId pollingWithoutTab = None \<and>
   fst (intervalCallback pollingWithoutTab) = pollingWithoutTab\<lparr>refreshIntervalId := None\<rparr> \<and>
   snd (intervalCallback pollingWithoutTab) = [ClearInterval 7] \<and>
   filter isReload (snd (intervalCallback pollingWithoutTab)) = [] \<and>
   filter isScrapeRequest (snd (intervalCallback pollingWithoutTab)) = []"
proof -
  have h: "twitterTabId pollingWithoutTab = None"
    by (simp add: pollingWithoutTab_def)
  have t: "timerOf pollingWithoutTab = [ClearInterval 7]"
    by (simp add: timerOf_def pollingWithoutTab_def)
  from intervalCallback_no_tab [OF h] h t show ?thesis by simp
qed

section \<open>Verification of the scroll collector\<close>

lemma collectNew_found:
  "collectNew ts (c, ids, f) = (c', ids', f') \<Longrightarrow>
   length c \<le> length c' \<and> f' = (f \<or> length c < length c')"
proof (induction ts arbitrary: c ids f)
  case Nil
  then show ?case by simp
next
  case (Cons t ts)
  show ?case
  proof (cases "uniqueKey t \<in> ids")
    case True
    with Cons.prems have "collectNew ts (c, ids, f) = (c', ids', f')" by simp
    from Cons.IH [OF this] show ?thesis .
  next
    case False
    with Cons.prems
    have "collectNew ts (c @ [t], insert (uniqueKey t) ids, True) = (c', ids', f')" by simp
    from Cons.IH [OF this] show ?thesis by auto
  qed
qed

lemma stillCollecting_count:
  "stillCollecting views k \<Longrightarrow> countAfter views k < minTweetsToCollect"
  by (cases k) (simp_all add: countAfter_def minTweetsToCollect_def)

text \<open>One iteration of the loop from the state that \<open>k\<close> steps have built.\<close>

lemma scrollLoop_step:
  assumes "stillCollecting views k" and "k < maxScrollAttempts"
  shows "scrollLoop views k (fst (afterSteps views k)) (snd (afterSteps views k)) =
     (if countAfter views (Suc k) \<ge> minTweetsToCollect
      then (fst (afterSteps views (Suc k)), Suc k, TargetReached)
      else if countAfter views (Suc k) = countAfter views k \<and> 0 < k
      then (fst (afterSteps views (Suc k)), Suc k, NoNewContent)
      else scrollLoop views (Suc k) (fst (afterSteps views (Suc k)))
             (snd (afterSteps views (Suc k))))"
proof -
  obtain c ids where a: "afterSteps views k = (c, ids)" by (cases "afterSteps views k")
  obtain c' ids' f' where n: "collectNew (views k) (c, ids, False) = (c', ids', f')"
    by (cases "collectNew (views k) (c, ids, False)")
  have s: "afterSteps views (Suc k) = (c', ids')" by (simp add: a n)
  have f: "f' = (length c < length c')" and le: "length c \<le> length c'"
    using collectNew_found [OF n] by simp_all
  have enter: "length c < minTweetsToCollect \<and> k < maxScrollAttempts"
    using stillCollecting_count [OF assms(1)] assms(2)
    by (simp add: countAfter_def a)
  show ?thesis
    apply (subst scrollLoop.simps)
    using enter f le
    by (auto simp: a n s countAfter_def)
qed

lemma scrollLoop_reach:
  "stillCollecting views k \<Longrightarrow> k \<le> maxScrollAttempts \<Longrightarrow>
   scrapeTweetsWithScrolling views
     = scrollLoop views k (fst (afterSteps views k)) (snd (afterSteps views k))"
proof (induction k)
  case 0
  then show ?case by (simp add: scrapeTweetsWithScrolling_def)
next
  case (Suc k)
  then have sk: "stillCollecting views k" and lt: "k < maxScrollAttempts" by simp_all
  have "\<not> countAfter views (Suc k) \<ge> minTweetsToCollect"
    using Suc.prems by simp
  moreover have "\<not> (countAfter views (Suc k) = countAfter views k \<and> 0 < k)"
    using Suc.prems by auto
  ultimately have "scrollLoop views k (fst (afterSteps views k)) (snd (afterSteps views k))
      = scrollLoop views (Suc k) (fst (afterSteps views (Suc k)))
             (snd (afterSteps views (Suc k)))"
    by (simp only: scrollLoop_step [OF sk lt] if_False)
  with Suc.IH [OF sk] lt show ?case by simp
qed

lemma scrollLoop_exhausted:
  "scrollLoop views maxScrollAttempts collected ids =
     (collected, maxScrollAttempts,
      if length collected < minTweetsToCollect then MaxAttemptsReached else TargetReached)"
  by (subst scrollLoop.simps) simp

text \<open>
  Every run falls under one of the three cases of the theorem below: either none of the
  first ten steps stops it, or some step is the first to reach the target or, after the
  first, to add nothing.
\<close>

lemma countAfter_mono: "countAfter views k \<le> countAfter views (Suc k)"
proof -
  obtain c ids where a: "afterSteps views k = (c, ids)" by (cases "afterSteps views k")
  obtain c' ids' f' where n: "collectNew (views k) (c, ids, False) = (c', ids', f')"
    by (cases "collectNew (views k) (c, ids, False)")
  from collectNew_found [OF n] show ?thesis
    by (simp add: countAfter_def a n)
qed

lemma stop_exists:
  "stillCollecting views n \<or>
   (\<exists>k<n. stillCollecting views k \<and>
      (minTweetsToCollect \<le> countAfter views (Suc k)
       \<or> (0 < k \<and> countAfter views (Suc k) = countAfter views k)))"
proof (induction n)
  case 0
  then show ?case by simp
next
  case (Suc n)
  then show ?case
  proof
    assume s: "stillCollecting views n"
    show ?thesis
    proof (cases "stillCollecting views (Suc n)")
      case True
      then show ?thesis by simp
    next
      case False
      with s have "minTweetsToCollect \<le> countAfter views (Suc n)
         \<or> (0 < n \<and> countAfter views (Suc n) = countAfter views n)"
        using countAfter_mono [of views n] by auto
      with s show ?thesis by blast
    qed
  next
    assume "\<exists>k<n. stillCollecting views k \<and>
      (minTweetsToCollect \<le> countAfter views (Suc k)
       \<or> (0 < k \<and> countAfter views (Suc k) = countAfter views k))"
    then show ?thesis using less_Suc_eq by blast
  qed
qed

text \<open>The three exits, each from the step at which it is taken.\<close>

lemma stops_no_new_content:
  assumes "stillCollecting views k" and "0 < k" and "k < 10"
    and "countAfter views (Suc k) = countAfter views k"
  shows "scrapeTweetsWithScrolling views
           = (fst (afterSteps views (Suc k)), Suc k, NoNewContent)
         \<and> countAfter views (Suc k) < minTweetsToCollect"
proof -
  have c: "countAfter views (Suc k) < minTweetsToCollect"
    using stillCollecting_count [OF assms(1)] assms(4) by simp
  with assms show ?thesis
    using scrollLoop_reach [of views k] scrollLoop_step [of views k]
    by (simp add: maxScrollAttempts_def)
qed

lemma stops_max_attempts:
  assumes "stillCollecting views 10"
  shows "scrapeTweetsWithScrolling views
           = (fst (afterSteps views 10), 10, MaxAttemptsReached)"
proof -
  have m: "maxScrollAttempts = 10" by (simp add: maxScrollAttempts_def)
  have "scrapeTweetsWithScrolling views
          = scrollLoop views 10 (fst (afterSteps views 10)) (snd (afterSteps views 10))"
    using assms scrollLoop_reach [of views 10] by (simp add: m)
  also have "\<dots> = (fst (afterSteps views 10), 10, MaxAttemptsReached)"
    using stillCollecting_count [OF assms]
      scrollLoop_exhausted [of views "fst (afterSteps views 10)" "snd (afterSteps views 10)"]
    by (simp add: m countAfter_def)
  finally show ?thesis .
qed

lemma stops_target_reached:
  assumes "stillCollecting views k" and "k < 10"
    and "minTweetsToCollect \<le> countAfter views (Suc k)"
  shows "scrapeTweetsWithScrolling views
           = (fst (afterSteps views (Suc k)), Suc k, TargetReached)"
  using assms scrollLoop_reach [of views k] scrollLoop_step [of views k]
  by (simp add: maxScrollAttempts_def)

text \<open>
  Claim C5, as amended. Every step adds the tweets not yet collected and then checks, in
  this order: if the count has reached \<open>minTweetsToCollect = 20\<close>, the run stops there with
  \<open>TargetReached\<close>; otherwise, if the step is after the first and has added no tweet, the
  run stops there with \<open>NoNewContent\<close>, the target not being reached. The run stops with
  \<open>MaxAttemptsReached\<close>, after the tenth step, exactly when none of the
  \<open>maxScrollAttempts = 10\<close> steps has stopped it in one of these two ways. In each case
  the tweets returned are those accumulated so far.
\<close>

theorem scrollLoop_stop_reasons:
  "(stillCollecting views k \<and> 0 < k \<and> k < 10
      \<and> countAfter views (Suc k) = countAfter views k
      \<longrightarrow> scrapeTweetsWithScrolling views
            = (fst (afterSteps views (Suc k)), Suc k, NoNewContent)
          \<and> countAfter views (Suc k) < minTweetsToCollect) \<and>
   (stillCollecting views 10
      \<longrightarrow> scrapeTweetsWithScrolling views
            = (fst (afterSteps views 10), 10, MaxAttemptsReached)) \<and>
   (stillCollecting views k \<and> k < 10 \<and> minTweetsToCollect \<le> countAfter views (Suc k)
      \<longrightarrow> scrapeTweetsWithScrolling views
            = (fst (afterSteps views (Suc k)), Suc k, TargetReached)) \<and>
   ((snd (snd (scrapeTweetsWithScrolling views)) = MaxAttemptsReached)
      = stillCollecting views 10)"
proof (intro conjI impI)
  assume "stillCollecting views k \<and> 0 < k \<and> k < 10
      \<and> countAfter views (Suc k) = countAfter views k"
  then have r: "scrapeTweetsWithScrolling views
           = (fst (afterSteps views (Suc k)), Suc k, NoNewContent)
         \<and> countAfter views (Suc k) < minTweetsToCollect"
    using stops_no_new_content [of views k] by blast
  from r show "scrapeTweetsWithScrolling views
            = (fst (afterSteps views (Suc k)), Suc k, NoNewContent)" ..
  from r show "countAfter views (Suc k) < minTweetsToCollect" ..
next
  assume "stillCollecting views 10"
  then show "scrapeTweetsWithScrolling views
            = (fst (afterSteps views 10), 10, MaxAttemptsReached)"
    by (rule stops_max_attempts)
next
  assume "stillCollecting views k \<and> k < 10 \<and> minTweetsToCollect \<le> countAfter views (Suc k)"
  then show "scrapeTweetsWithScrolling views
            = (fst (afterSteps views (Suc k)), Suc k, TargetReached)"
    using stops_target_reached [of views k] by blast
next
  show "(snd (snd (scrapeTweetsWithScrolling views)) = MaxAttemptsReached)
          = stillCollecting views 10"
  proof (cases "stillCollecting views 10")
    case True
    then show ?thesis using stops_max_attempts [of views] by simp
  next
    case False
    then obtain j where j: "j < 10" "stillCollecting views j"
      and s: "minTweetsToCollect \<le> countAfter views (Suc j)
         \<or> (0 < j \<and> countAfter views (Suc j) = countAfter views j)"
      using stop_exists [of views 10] by blast
    from s have "snd (snd (scrapeTweetsWithScrolling views)) \<noteq> MaxAttemptsReached"
    proof
      assume "minTweetsToCollect \<le> countAfter views (Suc j)"
      then show ?thesis using stops_target_reached [OF j(2) j(1)] by simp
    next
      assume "0 < j \<and> countAfter views (Suc j) = countAfter views j"
      then show ?thesis using stops_no_new_content [OF j(2) _ j(1)] by simp
    qed
    with False show ?thesis by simp
  qed
qed

lemma exampleRaw_key: "(uniqueKey (exampleRaw m) = uniqueKey (exampleRaw n)) = (m = n)"
  by (simp add: uniqueKey_def exampleRaw_def natToString_inject)

theorem scrollLoop_stop_reasons_witness:
  "(stillCollecting staleViews 1 \<and> countAfter staleViews 2 = countAfter staleViews 1) \<and>
   scrapeTweetsWithScrolling staleViews = ([exampleRaw 0, exampleRaw 1], 2, NoNewContent) \<and>
   stillCollecting freshViews 10 \<and>
   scrapeTweetsWithScrolling freshViews = (map exampleRaw [0..<10], 10, MaxAttemptsReached) \<and>
   (stillCollecting fullViews 1 \<and> minTweetsToCollect \<le> countAfter fullViews 2) \<and>
   scrapeTweetsWithScrolling fullViews = (map exampleRaw [0..<20], 2, TargetReached)"
proof -
  have s: "stillCollecting staleViews 1 \<and> 0 < (1::nat) \<and> (1::nat) < 10
             \<and> countAfter staleViews (Suc 1) = countAfter staleViews 1"
    by (simp add: eval_nat_numeral countAfter_def staleViews_def exampleRaw_key
        minTweetsToCollect_def)
  have s2: "fst (afterSteps staleViews 2) = [exampleRaw 0, exampleRaw 1]"
    by (simp add: eval_nat_numeral staleViews_def exampleRaw_key)
  have f: "stillCollecting freshViews 10"
    by (simp add: eval_nat_numeral countAfter_def freshViews_def exampleRaw_key
        minTweetsToCollect_def)
  have f2: "fst (afterSteps freshViews 10) = map exampleRaw [0..<10]"
    by (simp add: eval_nat_numeral freshViews_def exampleRaw_key upt_rec)
  have t: "stillCollecting fullViews 1 \<and> (1::nat) < 10
             \<and> minTweetsToCollect \<le> countAfter fullViews (Suc 1)"
    by (simp add: eval_nat_numeral countAfter_def fullViews_def exampleRaw_key
        minTweetsToCollect_def upt_rec)
  have t2: "fst (afterSteps fullViews 2) = map exampleRaw [0..<20]"
    by (simp add: eval_nat_numeral fullViews_def exampleRaw_key upt_rec)
  have r1: "scrapeTweetsWithScrolling staleViews
              = (fst (afterSteps staleViews (Suc 1)), Suc 1, NoNewContent)"
    using scrollLoop_stop_reasons [of staleViews 1] s by blast
  have r2: "scrapeTweetsWithScrolling freshViews
              = (fst (afterSteps freshViews 10), 10, MaxAttemptsReached)"
    using scrollLoop_stop_reasons [of freshViews 1] f by blast
  have r3: "scrapeTweetsWithScrolling fullViews
              = (fst (afterSteps fullViews (Suc 1)), Suc 1, TargetReached)"
    using scrollLoop_stop_reasons [of fullViews 1] t by blast
  have two: "Suc 1 = 2" by simp
  show ?thesis
    using s f t by (simp only: r1 r2 r3 two s2 f2 t2 simp_thms)
qed

text \<open>
  Claim C5 as stated fails in its second part: a count that never reaches the target
  within ten steps does not give \<open>MaxAttemptsReached\<close> when a step after the first adds
  nothing. A feed that shows nothing, and one that shows the same two tweets at every
  step, stop after the second step with \<open>NoNewContent\<close>; a feed that shows one more
  tweet at each of nine steps and nothing at the tenth uses all ten steps and stops with
  \<open>NoNewContent\<close> as well.
\<close>

lemma countAfter_bounded:
  "countAfter views n \<le> b \<Longrightarrow> k \<le> n \<Longrightarrow> countAfter views k \<le> b"
proof (induction n)
  case 0
  then show ?case by simp
next
  case (Suc n)
  show ?case
  proof (cases "k = Suc n")
    case True
    with Suc.prems show ?thesis by simp
  next
    case False
    with Suc.prems have "k \<le> n" by simp
    moreover have "countAfter views n \<le> b"
      using countAfter_mono [of views n] Suc.prems(1) by simp
    ultimately show ?thesis by (rule Suc.IH [rotated])
  qed
qed

theorem scrollLoop_max_attempts_counterexample:
  "list_all (\<lambda>k. countAfter emptyViews k < minTweetsToCollect) [0..<11] \<and>
   scrapeTweetsWithScrolling emptyViews = ([], 2, NoNewContent) \<and>
   list_all (\<lambda>k. countAfter staleViews k < minTweetsToCollect) [0..<11] \<and>
   scrapeTweetsWithScrolling staleViews = ([exampleRaw 0, exampleRaw 1], 2, NoNewContent) \<and>
   list_all (\<lambda>k. countAfter endingViews k < minTweetsToCollect) [0..<11] \<and>
   scrapeTweetsWithScrolling endingViews = (map exampleRaw [0..<9], 10, NoNewContent)"
proof -
  have e10: "afterSteps emptyViews 10 = ([], {})"
    by (simp add: eval_nat_numeral emptyViews_def)
  have s10: "fst (afterSteps staleViews 10) = [exampleRaw 0, exampleRaw 1]"
    by (simp add: eval_nat_numeral staleViews_def exampleRaw_key)
  have n10: "fst (afterSteps endingViews 10) = map exampleRaw [0..<9]"
    by (simp add: eval_nat_numeral endingViews_def exampleRaw_key upt_rec)
  have below: "countAfter views 10 \<le> 19 \<Longrightarrow>
      list_all (\<lambda>k. countAfter views k < minTweetsToCollect) [0..<11]" for views
  proof -
    assume t: "countAfter views 10 \<le> 19"
    have "countAfter views k < minTweetsToCollect" if "k < 11" for k
    proof -
      from that have "k \<le> 10" by simp
      with t have "countAfter views k \<le> 19" by (rule countAfter_bounded)
      then show ?thesis by (simp add: minTweetsToCollect_def)
    qed
    then show ?thesis by (simp add: list_all_iff)
  qed
  have a: "list_all (\<lambda>k. countAfter emptyViews k < minTweetsToCollect) [0..<11]"
    by (rule below) (simp add: countAfter_def e10)
  have b: "list_all (\<lambda>k. countAfter staleViews k < minTweetsToCollect) [0..<11]"
    by (rule below) (simp add: countAfter_def s10)
  have c: "list_all (\<lambda>k. countAfter endingViews k < minTweetsToCollect) [0..<11]"
    by (rule below) (simp add: countAfter_def n10)
  have se: "stillCollecting emptyViews 1"
    "countAfter emptyViews (Suc 1) = countAfter emptyViews 1"
    by (simp_all add: eval_nat_numeral countAfter_def emptyViews_def minTweetsToCollect_def)
  have ss: "stillCollecting staleViews 1"
    "countAfter staleViews (Suc 1) = countAfter staleViews 1"
    by (simp_all add: eval_nat_numeral countAfter_def staleViews_def exampleRaw_key
        minTweetsToCollect_def)
  have sn: "stillCollecting endingViews 9"
    "countAfter endingViews (Suc 9) = countAfter endingViews 9"
    by (simp_all add: eval_nat_numeral countAfter_def endingViews_def exampleRaw_key
        minTweetsToCollect_def)
  have e2: "fst (afterSteps emptyViews 2) = []"
    by (simp add: eval_nat_numeral emptyViews_def)
  have s2: "fst (afterSteps staleViews 2) = [exampleRaw 0, exampleRaw 1]"
    by (simp add: eval_nat_numeral staleViews_def exampleRaw_key)
  have two: "Suc 1 = 2" and ten: "Suc 9 = 10" by simp_all
  have re: "scrapeTweetsWithScrolling emptyViews
              = (fst (afterSteps emptyViews (Suc 1)), Suc 1, NoNewContent)"
    by (rule stops_no_new_content [OF se(1) _ _ se(2), THEN conjunct1]) simp_all
  have rs: "scrapeTweetsWithScrolling staleViews
              = (fst (afterSteps staleViews (Suc 1)), Suc 1, NoNewContent)"
    by (rule stops_no_new_content [OF ss(1) _ _ ss(2), THEN conjunct1]) simp_all
  have rn: "scrapeTweetsWithScrolling endingViews
              = (fst (afterSteps endingViews (Suc 9)), Suc 9, NoNewContent)"
    by (rule stops_no_new_content [OF sn(1) _ _ sn(2), THEN conjunct1]) simp_all
  show ?thesis
    using a b c by (simp only: re rs rn two ten e2 s2 n10 simp_thms)
qed
end
